theory Spec2Isabelle
  imports Complex_Main "HOL-Library.Word"
begin

section \<open>Python values\<close>

text \<open>
  A Python \<^verbatim>\<open>str\<close> is a sequence of code points, and \<^verbatim>\<open>len\<close> counts code points: a
  string is modelled as the list of its code points. \<open>py\<close> reads an ASCII literal.
\<close>

type_synonym pystr = "nat list"

definition py :: "string \<Rightarrow> pystr" where
  "py s = map of_char s"

text \<open>
  The exceptions the script can meet. \<open>OtherError\<close> stands for any further subclass of
  \<^verbatim>\<open>Exception\<close> raised by a library call (a corrupt deck, an unreadable image, a full
  disk).
\<close>

datatype exc =
  ValueError | IndexError | AttributeError | ZeroDivisionError
  | FileNotFoundError | CalledProcessError | OSError | OtherError

text \<open>
  White space as \<^verbatim>\<open>str.split()\<close> and \<^verbatim>\<open>str.strip()\<close> see it (both use the same test,
  \<^verbatim>\<open>str.isspace\<close> of one character): U+0009..U+000D, U+001C..U+0020, U+0085, U+00A0,
  U+1680, U+2000..U+200A, U+2028, U+2029, U+202F, U+205F, U+3000.
\<close>

definition is_space :: "nat \<Rightarrow> bool" where
  "is_space c = (c \<in> set [9, 10, 11, 12, 13, 28, 29, 30, 31, 32, 133, 160, 5760,
      8192, 8193, 8194, 8195, 8196, 8197, 8198, 8199, 8200, 8201, 8202,
      8232, 8233, 8239, 8287, 12288])"

text \<open>
  \<^verbatim>\<open>text.split()\<close>: the maximal runs of characters that are not white space, in order.
  The second argument of \<open>split_words\<close> is the word being read.
\<close>

fun split_words :: "pystr \<Rightarrow> pystr \<Rightarrow> pystr list" where
  "split_words [] w = (if w = [] then [] else [w])"
| "split_words (c # cs) w =
     (if is_space c then (if w = [] then split_words cs [] else w # split_words cs [])
      else split_words cs (w @ [c]))"

definition py_split :: "pystr \<Rightarrow> pystr list" where
  "py_split s = split_words s []"

text \<open>\<^verbatim>\<open>sep.join(words)\<close>.\<close>

fun py_join :: "pystr \<Rightarrow> pystr list \<Rightarrow> pystr" where
  "py_join sep [] = []"
| "py_join sep [w] = w"
| "py_join sep (w # ws) = w @ sep @ py_join sep ws"

text \<open>\<^verbatim>\<open>text.strip()\<close>: white space removed at both ends.\<close>

definition py_strip :: "pystr \<Rightarrow> pystr" where
  "py_strip s = rev (dropWhile is_space (rev (dropWhile is_space s)))"

text \<open>\<^verbatim>\<open>text.replace(char, '')\<close> for a one-character \<^verbatim>\<open>char\<close>.\<close>

definition py_replace_char :: "nat \<Rightarrow> pystr \<Rightarrow> pystr" where
  "py_replace_char c s = filter (\<lambda>x. x \<noteq> c) s"

text \<open>\<^verbatim>\<open>str(n)\<close> of a natural number: its decimal digits.\<close>

fun py_str :: "nat \<Rightarrow> pystr" where
  "py_str n = (if n < 10 then [48 + n] else py_str (n div 10) @ [48 + n mod 10])"

declare py_str.simps [simp del]

text \<open>
  \<^verbatim>\<open>int(x)\<close> of a float truncates towards zero. Floats are modelled by the rationals
  they denote; the rounding of a float operation is not modelled.
\<close>

definition py_int :: "rat \<Rightarrow> int" where
  "py_int q = (if 0 \<le> q then \<lfloor>q\<rfloor> else \<lceil>q\<rceil>)"

text \<open>\<^verbatim>\<open>a / b\<close> on integers: true division, \<^verbatim>\<open>ZeroDivisionError\<close> when \<^verbatim>\<open>b\<close> is 0.\<close>

definition py_truediv :: "int \<Rightarrow> int \<Rightarrow> exc + rat" where
  "py_truediv a b = (if b = 0 then Inl ZeroDivisionError else Inr (of_int a / of_int b))"

section \<open>Filename Sanitizer\<close>

text \<open>
  \<^verbatim>\<open>
  def sanitize_filename(text):
      invalid_chars = '<>:"/\\|?*'
      for char in invalid_chars:
          text = text.replace(char, '')
      text = ' '.join(text.split())
      if len(text) > 100:
          text = text[:100]
      return text.strip()
  \<close>
  The code points of \<^verbatim>\<open>invalid_chars\<close> are those of
  \<^verbatim>\<open>< > : " / \ | ? *\<close>, in this order.
\<close>

definition invalid_chars :: pystr where
  "invalid_chars = [60, 62, 58, 34, 47, 92, 124, 63, 42]"

definition sanitize_filename :: "pystr \<Rightarrow> pystr" where
  "sanitize_filename text0 =
     (let text1 = fold py_replace_char invalid_chars text0;
          text2 = py_join [32] (py_split text1);
          text3 = (if length text2 > 100 then take 100 text2 else text2)
      in py_strip text3)"

subsection \<open>Sanitized names\<close>

text \<open>
  The names the specification calls already sanitized: no invalid character; every
  white-space character is a space U+0020 and the character after it, if there is one, is
  not white space (\<open>spaced_ok\<close>); no white space at either end; at most 100 characters.
  \<open>tidy\<close> is the part of this that speaks of white space alone.
\<close>

fun spaced_ok :: "pystr \<Rightarrow> bool" where
  "spaced_ok [] = True"
| "spaced_ok (c # cs) = ((is_space c \<longrightarrow> c = 32 \<and> (cs = [] \<or> \<not> is_space (hd cs))) \<and> spaced_ok cs)"

definition tidy :: "pystr \<Rightarrow> bool" where
  "tidy s = (spaced_ok s \<and> (s \<noteq> [] \<longrightarrow> \<not> is_space (hd s) \<and> \<not> is_space (last s)))"

definition sanitized_name :: "pystr \<Rightarrow> bool" where
  "sanitized_name t =
     (set t \<inter> set invalid_chars = {} \<and> spaced_ok t
      \<and> (t \<noteq> [] \<longrightarrow> \<not> is_space (hd t) \<and> \<not> is_space (last t))
      \<and> length t \<le> 100)"

section \<open>Title Locator\<close>

text \<open>
  What the script reads of a python-pptx shape: its text, when it has a \<^verbatim>\<open>text\<close>
  attribute at all, and its position and size in EMU. A slide has its shapes in order and,
  possibly, the shape that \<^verbatim>\<open>slide.shapes.title\<close> returns; the presentation gives the page
  size and the slides.
\<close>

record shape =
  shp_text :: "pystr option"
  shp_left :: int
  shp_top :: int
  shp_width :: int
  shp_height :: int

record slide =
  title_shape :: "shape option"
  shapes :: "shape list"

record presentation =
  slide_width :: int
  slide_height :: int
  slides :: "slide list"

type_synonym bbox = "rat \<times> rat \<times> rat \<times> rat"

type_synonym slide_info = "pystr option \<times> bbox option"

text \<open>
  The relative box both branches build:
  \<^verbatim>\<open>(left / slide_width, top / slide_height, width / slide_width, height / slide_height)\<close>.
\<close>

definition relative_bbox :: "presentation \<Rightarrow> shape \<Rightarrow> exc + bbox" where
  "relative_bbox prs s =
     (case py_truediv (shp_left s) (slide_width prs) of Inl e \<Rightarrow> Inl e | Inr x \<Rightarrow>
      case py_truediv (shp_top s) (slide_height prs) of Inl e \<Rightarrow> Inl e | Inr y \<Rightarrow>
      case py_truediv (shp_width s) (slide_width prs) of Inl e \<Rightarrow> Inl e | Inr w \<Rightarrow>
      case py_truediv (shp_height s) (slide_height prs) of Inl e \<Rightarrow> Inl e | Inr h \<Rightarrow>
      Inr (x, y, w, h))"

text \<open>
  \<^verbatim>\<open>
  for shape in slide.shapes:
      if hasattr(shape, "text") and shape.text.strip():
          title = shape.text.strip()
          bbox = (...)
          return title, bbox
  return None, None
  \<close>
\<close>

fun first_text_shape :: "presentation \<Rightarrow> shape list \<Rightarrow> exc + slide_info" where
  "first_text_shape prs [] = Inr (None, None)"
| "first_text_shape prs (s # ss) =
     (case shp_text s of
        None \<Rightarrow> first_text_shape prs ss
      | Some t \<Rightarrow>
          if py_strip t \<noteq> [] then
            (case relative_bbox prs s of Inl e \<Rightarrow> Inl e
             | Inr b \<Rightarrow> Inr (Some (py_strip t), Some b))
          else first_text_shape prs ss)"

text \<open>
  \<^verbatim>\<open>
  if slide.shapes.title:
      title_shape = slide.shapes.title
      title = title_shape.text
      ...
      return title, bbox
  \<close>
  A shape object is truthy, so the branch is taken whenever the slide has a title shape.
\<close>

definition extract_slide_title_and_bbox :: "presentation \<Rightarrow> slide \<Rightarrow> exc + slide_info" where
  "extract_slide_title_and_bbox prs sl =
     (case title_shape sl of
        Some ts \<Rightarrow>
          (case shp_text ts of
             None \<Rightarrow> Inl AttributeError
           | Some t \<Rightarrow>
               (case relative_bbox prs ts of Inl e \<Rightarrow> Inl e | Inr b \<Rightarrow> Inr (Some t, Some b)))
      | None \<Rightarrow> first_text_shape prs (shapes sl))"

section \<open>Raster images\<close>

text \<open>
  A Pillow image as the script uses it: its mode, its size and the flat, row-major
  sequence of pixels that \<^verbatim>\<open>getdata\<close> returns and \<^verbatim>\<open>putdata\<close> stores. A band
  is one byte. The raster is held as four bands whichever the mode: a mode without an alpha
  band gets alpha 255 when \<^verbatim>\<open>convert('RGBA')\<close> promotes it, and a grey image repeats
  its one band.
\<close>

datatype img_mode = ModeL | ModeRGB | ModeRGBA

type_synonym pixel = "8 word \<times> 8 word \<times> 8 word \<times> 8 word"

record image =
  mode :: img_mode
  width :: nat
  height :: nat
  data :: "pixel list"


definition pixel_at :: "image \<Rightarrow> nat \<Rightarrow> nat \<Rightarrow> pixel" where
  "pixel_at img x y = data img ! (y * width img + x)"

fun alpha :: "pixel \<Rightarrow> 8 word" where
  "alpha (r, g, b, a) = a"

fun convert_px :: "img_mode \<Rightarrow> pixel \<Rightarrow> pixel" where
  "convert_px ModeRGBA p = p"
| "convert_px ModeRGB (r, g, b, a) = (r, g, b, 255)"
| "convert_px ModeL (l, g, b, a) = (l, l, l, 255)"

definition convert_rgba :: "image \<Rightarrow> image" where
  "convert_rgba img = img\<lparr>mode := ModeRGBA, data := map (convert_px (mode img)) (data img)\<rparr>"

text \<open>\<^verbatim>\<open>if img.mode != 'RGBA': img = img.convert('RGBA')\<close>\<close>

definition ensure_rgba :: "image \<Rightarrow> image" where
  "ensure_rgba img = (if mode img \<noteq> ModeRGBA then convert_rgba img else img)"

subsection \<open>Pillow operations\<close>

text \<open>
  \<^verbatim>\<open>ImageDraw.Draw(img).rectangle([x0, y0, x1, y1], fill=...)\<close>: the box includes both end
  points, the drawing is clipped to the image, and Pillow (from 9.5) raises
  \<^verbatim>\<open>ValueError\<close> when \<^verbatim>\<open>x1 < x0\<close> or \<^verbatim>\<open>y1 < y0\<close>. On an RGBA image the fill replaces the
  pixel, alpha included.
\<close>

fun in_rect :: "nat \<Rightarrow> int \<times> int \<times> int \<times> int \<Rightarrow> nat \<Rightarrow> bool" where
  "in_rect w (x0, y0, x1, y1) i =
     (x0 \<le> int (i mod w) \<and> int (i mod w) \<le> x1 \<and> y0 \<le> int (i div w) \<and> int (i div w) \<le> y1)"

fun draw_rectangle :: "image \<Rightarrow> int \<times> int \<times> int \<times> int \<Rightarrow> pixel \<Rightarrow> exc + image" where
  "draw_rectangle img (x0, y0, x1, y1) fill =
     (if x1 < x0 \<or> y1 < y0 then Inl ValueError
      else Inr (img\<lparr>data :=
             map (\<lambda>i. if in_rect (width img) (x0, y0, x1, y1) i then fill else data img ! i)
               [0..<length (data img)]\<rparr>))"

text \<open>
  \<^verbatim>\<open>alpha.getbbox()\<close>: the bounding box \<^verbatim>\<open>(left, upper, right, lower)\<close> of the non-zero
  region of the band, right and lower exclusive, or \<^verbatim>\<open>None\<close> when the band is zero
  everywhere.
\<close>

definition nonzero_columns :: "image \<Rightarrow> nat list" where
  "nonzero_columns img =
     filter (\<lambda>x. list_ex (\<lambda>y. alpha (pixel_at img x y) \<noteq> 0) [0..<height img]) [0..<width img]"

definition nonzero_rows :: "image \<Rightarrow> nat list" where
  "nonzero_rows img =
     filter (\<lambda>y. list_ex (\<lambda>x. alpha (pixel_at img x y) \<noteq> 0) [0..<width img]) [0..<height img]"

definition getbbox :: "image \<Rightarrow> (int \<times> int \<times> int \<times> int) option" where
  "getbbox img =
     (if nonzero_columns img = [] then None
      else Some (int (hd (nonzero_columns img)), int (hd (nonzero_rows img)),
                 int (last (nonzero_columns img)) + 1, int (last (nonzero_rows img)) + 1))"

text \<open>
  \<^verbatim>\<open>img.crop((left, upper, right, lower))\<close>: an image of size
  \<^verbatim>\<open>(right - left, lower - upper)\<close> in the same mode; a pixel of the box that lies outside
  the image is zero in every band. Pillow raises \<^verbatim>\<open>ValueError\<close> when \<^verbatim>\<open>right < left\<close> or
  \<^verbatim>\<open>lower < upper\<close>.
\<close>

definition source_pixel :: "image \<Rightarrow> int \<Rightarrow> int \<Rightarrow> pixel" where
  "source_pixel img x y =
     (if 0 \<le> x \<and> x < int (width img) \<and> 0 \<le> y \<and> y < int (height img)
      then pixel_at img (nat x) (nat y) else (0, 0, 0, 0))"

fun crop :: "image \<Rightarrow> int \<times> int \<times> int \<times> int \<Rightarrow> exc + image" where
  "crop img (left, upper, right, lower) =
     (if right < left \<or> lower < upper then Inl ValueError
      else Inr \<lparr>mode = mode img, width = nat (right - left), height = nat (lower - upper),
                data = concat (map (\<lambda>y. map (\<lambda>x. source_pixel img (left + int x) (upper + int y))
                                             [0..<nat (right - left)])
                                 [0..<nat (lower - upper)])\<rparr>)"

text \<open>
  \<^verbatim>\<open>img.resize((w, h), Image.Resampling.LANCZOS)\<close>: a copy when the size is the image's
  own, \<^verbatim>\<open>ValueError\<close> (height and width must be > 0) when a side is below 1, otherwise an
  image of that size in the same mode. The Lanczos filter that computes the new pixels
  is a convolution in floating point; it is the parameter \<open>lanczos\<close>.
\<close>

type_synonym resampler = "image \<Rightarrow> nat \<Rightarrow> nat \<Rightarrow> pixel list"

fun resize :: "resampler \<Rightarrow> image \<Rightarrow> int \<times> int \<Rightarrow> exc + image" where
  "resize lanczos img (w, h) =
     (if (w, h) = (int (width img), int (height img)) then Inr img
      else if w < 1 \<or> h < 1 then Inl ValueError
      else Inr \<lparr>mode = mode img, width = nat w, height = nat h,
                data = lanczos img (nat w) (nat h)\<rparr>)"

section \<open>Background Transparency Filter\<close>

text \<open>
  Lines 347-357 of \<^verbatim>\<open>use_libreoffice_method\<close>:
  \<^verbatim>\<open>
  data = img.getdata()
  new_data = []
  for item in data:
      if item[0] > 250 and item[1] > 250 and item[2] > 250:
          new_data.append((255, 255, 255, 0))
      else:
          new_data.append(item)
  img.putdata(new_data)
  \<close>
\<close>

fun white_to_transparent :: "pixel \<Rightarrow> pixel" where
  "white_to_transparent (r, g, b, a) =
     (if r > 250 \<and> g > 250 \<and> b > 250 then (255, 255, 255, 0) else (r, g, b, a))"

definition background_filter :: "image \<Rightarrow> image" where
  "background_filter img = img\<lparr>data := map white_to_transparent (data img)\<rparr>"

section \<open>Title Eraser\<close>

text \<open>
  \<^verbatim>\<open>
  x = int(x_rel * img_width) - margin
  y = int(y_rel * img_height) - margin
  width = int(width_rel * img_width) + 2 * margin
  height = int(height_rel * img_height) + 2 * margin
  x = max(0, x)
  y = max(0, y)
  width = min(width, img_width - x)
  height = min(height, img_height - y)
  \<close>
  \<open>title_rect\<close> is this arithmetic on the four truncated products (\<open>rect_w\<close> and
  \<open>rect_h\<close> are the source's \<^verbatim>\<open>width\<close> and \<^verbatim>\<open>height\<close>); \<open>title_box\<close> is the
  list \<^verbatim>\<open>[x, y, x + width, y + height]\<close> handed to \<^verbatim>\<open>draw.rectangle\<close>.
\<close>

definition title_rect :: "int \<Rightarrow> int \<Rightarrow> int \<times> int \<times> int \<times> int \<Rightarrow> int \<Rightarrow> int \<times> int \<times> int \<times> int" where
  "title_rect img_width img_height scaled margin =
     (case scaled of (xs, ys, ws, hs) \<Rightarrow>
        let x = xs - margin;
            y = ys - margin;
            rect_w = ws + 2 * margin;
            rect_h = hs + 2 * margin;
            x = max 0 x;
            y = max 0 y;
            rect_w = min rect_w (img_width - x);
            rect_h = min rect_h (img_height - y)
        in (x, y, rect_w, rect_h))"

definition scaled_bbox :: "image \<Rightarrow> bbox \<Rightarrow> int \<times> int \<times> int \<times> int" where
  "scaled_bbox img b =
     (case b of (x_rel, y_rel, width_rel, height_rel) \<Rightarrow>
        (py_int (x_rel * of_nat (width img)), py_int (y_rel * of_nat (height img)),
         py_int (width_rel * of_nat (width img)), py_int (height_rel * of_nat (height img))))"

definition title_box :: "image \<Rightarrow> bbox \<Rightarrow> int \<Rightarrow> int \<times> int \<times> int \<times> int" where
  "title_box img b margin =
     (case title_rect (int (width img)) (int (height img)) (scaled_bbox img b) margin of
        (x, y, rect_w, rect_h) \<Rightarrow> (x, y, x + rect_w, y + rect_h))"

text \<open>
  \<^verbatim>\<open>
  def remove_title_from_image(img, bbox, margin=10):
      if bbox is None:
          return img
      ...
      if img.mode != 'RGBA':
          img = img.convert('RGBA')
      draw = ImageDraw.Draw(img)
      draw.rectangle([x, y, x + width, y + height], fill=(255, 255, 255, 0))
      return img
  \<close>
\<close>

definition remove_title_from_image :: "image \<Rightarrow> bbox option \<Rightarrow> int \<Rightarrow> exc + image" where
  "remove_title_from_image img bbox margin =
     (case bbox of
        None \<Rightarrow> Inr img
      | Some b \<Rightarrow> draw_rectangle (ensure_rgba img) (title_box img b margin) (255, 255, 255, 0))"

section \<open>Content Autocropper\<close>

text \<open>
  \<^verbatim>\<open>
  left, top, right, bottom = bbox
  left = max(0, left - margin)
  top = max(0, top - margin)
  right = min(img.width, right + margin)
  bottom = min(img.height, bottom + margin)
  \<close>
  The source's \<^verbatim>\<open>top\<close> and \<^verbatim>\<open>bottom\<close> are \<open>upper\<close> and \<open>lower\<close> here, as in
  Pillow's own description of a box.
\<close>

fun autocrop_box :: "image \<Rightarrow> int \<times> int \<times> int \<times> int \<Rightarrow> int \<Rightarrow> int \<times> int \<times> int \<times> int" where
  "autocrop_box img (left, upper, right, lower) margin =
     (max 0 (left - margin), max 0 (upper - margin),
      min (int (width img)) (right + margin), min (int (height img)) (lower + margin))"

text \<open>
  \<^verbatim>\<open>
  def autocrop_image(img, margin=0):
      if img.mode != 'RGBA':
          img = img.convert('RGBA')
      alpha = img.split()[-1]
      bbox = alpha.getbbox()
      if bbox is None:
          return img.crop((0, 0, 100, 100))
      ...
      return img.crop((left, top, right, bottom))
  \<close>
\<close>

definition autocrop_image :: "image \<Rightarrow> int \<Rightarrow> exc + image" where
  "autocrop_image img0 margin =
     (let img = ensure_rgba img0 in
      case getbbox img of
        None \<Rightarrow> crop img (0, 0, 100, 100)
      | Some bbox \<Rightarrow> crop img (autocrop_box img bbox margin))"

section \<open>Resizer\<close>

text \<open>
  \<^verbatim>\<open>
  def resize_image(img, scale_percent):
      if scale_percent >= 100:
          return img
      width = int(img.width * scale_percent / 100)
      height = int(img.height * scale_percent / 100)
      return img.resize((width, height), Image.Resampling.LANCZOS)
  \<close>
  The product is an integer and the quotient a float; the quotient of an integer below
  \<open>2 ^ 53\<close> in absolute value by 100 truncates as the exact quotient does.
\<close>

definition resize_size :: "image \<Rightarrow> int \<Rightarrow> int \<times> int" where
  "resize_size img scale_percent =
     (py_int (of_int (int (width img) * scale_percent) / 100),
      py_int (of_int (int (height img) * scale_percent) / 100))"

definition resize_image :: "resampler \<Rightarrow> image \<Rightarrow> int \<Rightarrow> exc + image" where
  "resize_image lanczos img scale_percent =
     (if scale_percent \<ge> 100 then Inr img
      else resize lanczos img (resize_size img scale_percent))"


section \<open>Pipeline Driver\<close>

subsection \<open>Output names\<close>

text \<open>
  \<^verbatim>\<open>
  if title:
      safe_title = sanitize_filename(title)
      if safe_title in name_counts:
          name_counts[safe_title] += 1
          output_name = f"{safe_title}_{name_counts[safe_title]}.png"
      else:
          name_counts[safe_title] = 1
          output_name = f"{safe_title}.png"
  else:
      output_name = f"Slide_{idx}.png"
  \<close>
  A title is truthy when it is neither \<^verbatim>\<open>None\<close> nor the empty string.
\<close>

type_synonym registry = "pystr \<rightharpoonup> nat"

definition output_name :: "registry \<Rightarrow> nat \<Rightarrow> pystr option \<Rightarrow> pystr \<times> registry" where
  "output_name name_counts idx title =
     (case title of
        None \<Rightarrow> (py ''Slide_'' @ py_str idx @ py ''.png'', name_counts)
      | Some t \<Rightarrow>
          if t = [] then (py ''Slide_'' @ py_str idx @ py ''.png'', name_counts)
          else
            let safe_title = sanitize_filename t in
            (case name_counts safe_title of
               Some c \<Rightarrow> (safe_title @ py ''_'' @ py_str (c + 1) @ py ''.png'',
                           name_counts(safe_title \<mapsto> c + 1))
             | None \<Rightarrow> (safe_title @ py ''.png'', name_counts(safe_title \<mapsto> 1))))"

subsection \<open>One page\<close>

text \<open>
  Lines 343-369: promotion to RGBA, the background filter, then the three optional
  stages. \<^verbatim>\<open>if remove_title and bbox:\<close> tests the box for truth, and a tuple of four
  numbers is truthy: the title is erased whenever a box was captured.
  \<^verbatim>\<open>
  if img.mode != 'RGBA':
      img = img.convert('RGBA')
  ... (background filter) ...
  if remove_title and bbox:
      img = remove_title_from_image(img, bbox, margin=15)
  if autocrop:
      img = autocrop_image(img, margin=crop_margin)
  if scale_percent < 100:
      img = resize_image(img, scale_percent)
  \<close>
\<close>

definition erase_stage :: "bool \<Rightarrow> bbox option \<Rightarrow> image \<Rightarrow> exc + image" where
  "erase_stage remove_title bbox img =
     (if remove_title \<and> bbox \<noteq> None then remove_title_from_image img bbox 15 else Inr img)"

definition crop_stage :: "bool \<Rightarrow> int \<Rightarrow> image \<Rightarrow> exc + image" where
  "crop_stage autocrop crop_margin img =
     (if autocrop then autocrop_image img crop_margin else Inr img)"

definition resize_stage :: "resampler \<Rightarrow> int \<Rightarrow> image \<Rightarrow> exc + image" where
  "resize_stage lanczos scale_percent img =
     (if scale_percent < 100 then resize_image lanczos img scale_percent else Inr img)"

definition process_image ::
  "resampler \<Rightarrow> bool \<Rightarrow> bool \<Rightarrow> int \<Rightarrow> int \<Rightarrow> bbox option \<Rightarrow> image \<Rightarrow> exc + image" where
  "process_image lanczos remove_title autocrop crop_margin scale_percent bbox img0 =
     (case erase_stage remove_title bbox (background_filter (ensure_rgba img0)) of
        Inl e \<Rightarrow> Inl e
      | Inr img1 \<Rightarrow>
          (case crop_stage autocrop crop_margin img1 of
             Inl e \<Rightarrow> Inl e
           | Inr img2 \<Rightarrow> resize_stage lanczos scale_percent img2))"

subsection \<open>The world outside the script\<close>

text \<open>
  What the run reads from its environment: the file system, the deck as python-pptx
  loads it, the two external tools, the page images that \<^verbatim>\<open>pdftoppm\<close> leaves in the
  temporary directory (in the sorted order of their names, each as \<^verbatim>\<open>Image.open\<close> returns
  it or raises), the outcome of saving under a name, and the resampling filter. The progress
  lines and the size statistics are not modelled.
\<close>

datatype proc_result = Exited0 | NotFound | NonZeroExit

record env =
  path_exists :: bool
  makedirs_error :: "exc option"
  listdir_error :: "exc option"
  load_presentation :: "exc + presentation"
  which_soffice :: bool
  which_libreoffice :: bool
  run_soffice :: proc_result
  run_libreoffice :: proc_result
  pdf_exists :: bool
  run_pdftoppm :: proc_result
  png_files :: "(exc + image) list"
  save_error :: "pystr \<Rightarrow> exc option"
  lanczos_filter :: resampler

text \<open>The diagnostics the script prints when it gives up, one constructor for each.\<close>

datatype diag =
  Usage | InputNotFound | LibreOfficeMissing | PdfConversionFailed | PdfNotCreated
  | PdftoppmMissing | NoPngGenerated | ErrorTrace exc

text \<open>
  The result of a call: the files written, in order, with their images; the diagnostics
  printed; and the exception that left the call, if one did.
\<close>

record run =
  written :: "(pystr \<times> image) list"
  printed :: "diag list"
  raised :: "exc option"

definition gave_up :: "diag \<Rightarrow> run" where
  "gave_up d = \<lparr>written = [], printed = [d], raised = None\<rparr>"

definition raising :: "exc \<Rightarrow> run" where
  "raising e = \<lparr>written = [], printed = [], raised = Some e\<rparr>"

subsection \<open>The loop over the pages (lines 315-397)\<close>

text \<open>
  \<^verbatim>\<open>for idx, (png_file, (title, bbox)) in enumerate(zip(png_files, slides_info), start=1)\<close>:
  the name is chosen first, then the page is opened, processed and saved. An exception
  ends the loop; the files written before it stay.
\<close>

fun process_pages ::
  "env \<Rightarrow> bool \<Rightarrow> bool \<Rightarrow> int \<Rightarrow> int \<Rightarrow> nat \<Rightarrow> registry \<Rightarrow> ((exc + image) \<times> slide_info) list
   \<Rightarrow> (pystr \<times> image) list \<times> exc option" where
  "process_pages ev remove_title autocrop crop_margin scale_percent idx name_counts [] = ([], None)"
| "process_pages ev remove_title autocrop crop_margin scale_percent idx name_counts
     ((png_file, (title, bbox)) # rest) =
     (case output_name name_counts idx title of (name, name_counts') \<Rightarrow>
        (case png_file of
           Inl e \<Rightarrow> ([], Some e)
         | Inr img0 \<Rightarrow>
             (case process_image (lanczos_filter ev) remove_title autocrop crop_margin
                     scale_percent bbox img0 of
                Inl e \<Rightarrow> ([], Some e)
              | Inr img \<Rightarrow>
                  (case save_error ev name of
                     Some e \<Rightarrow> ([], Some e)
                   | None \<Rightarrow>
                       (case process_pages ev remove_title autocrop crop_margin scale_percent
                               (idx + 1) name_counts' rest of
                          (ws, r) \<Rightarrow> ((name, img) # ws, r))))))"

subsection \<open>\<^verbatim>\<open>use_libreoffice_method\<close>\<close>

text \<open>
  \<open>rasterize_and_process\<close> is the function from the test for the PDF onwards (lines
  279-405): \<^verbatim>\<open>pdftoppm\<close> runs with \<^verbatim>\<open>check=True\<close> and only its absence is caught.
\<close>

definition rasterize_and_process ::
  "env \<Rightarrow> slide_info list \<Rightarrow> bool \<Rightarrow> bool \<Rightarrow> int \<Rightarrow> int \<Rightarrow> run" where
  "rasterize_and_process ev slides_info remove_title autocrop crop_margin scale_percent =
     (if \<not> pdf_exists ev then gave_up PdfNotCreated
      else case run_pdftoppm ev of
        NotFound \<Rightarrow> gave_up PdftoppmMissing
      | NonZeroExit \<Rightarrow> raising CalledProcessError
      | Exited0 \<Rightarrow>
          if png_files ev = [] then gave_up NoPngGenerated
          else (case process_pages ev remove_title autocrop crop_margin scale_percent 1 Map.empty
                       (zip (png_files ev) slides_info) of
                  (ws, r) \<Rightarrow> \<lparr>written = ws, printed = [], raised = r\<rparr>))"

text \<open>
  \<^verbatim>\<open>
  try:
      result = subprocess.run(cmd, check=True, capture_output=True, text=True)
  except FileNotFoundError:
      cmd[0] = 'libreoffice'
      result = subprocess.run(cmd, check=True, capture_output=True, text=True)
  except subprocess.CalledProcessError as e:
      print(...)
      return
  \<close>
  An exception of the second \<^verbatim>\<open>subprocess.run\<close> is raised inside a handler and leaves the
  function.
\<close>

definition use_libreoffice_method ::
  "env \<Rightarrow> slide_info list \<Rightarrow> bool \<Rightarrow> bool \<Rightarrow> int \<Rightarrow> int \<Rightarrow> run" where
  "use_libreoffice_method ev slides_info remove_title autocrop crop_margin scale_percent =
     (case run_soffice ev of
        Exited0 \<Rightarrow>
          rasterize_and_process ev slides_info remove_title autocrop crop_margin scale_percent
      | NonZeroExit \<Rightarrow> gave_up PdfConversionFailed
      | NotFound \<Rightarrow>
          (case run_libreoffice ev of
             Exited0 \<Rightarrow>
               rasterize_and_process ev slides_info remove_title autocrop crop_margin scale_percent
           | NotFound \<Rightarrow> raising FileNotFoundError
           | NonZeroExit \<Rightarrow> raising CalledProcessError))"

subsection \<open>\<^verbatim>\<open>pptx_to_png_transparent\<close>\<close>

text \<open>
  \<^verbatim>\<open>
  for idx, slide in enumerate(prs.slides, start=1):
      title, bbox = extract_slide_title_and_bbox(slide)
      slides_info.append((title, bbox))
  \<close>
\<close>

fun collect_slides_info :: "presentation \<Rightarrow> slide list \<Rightarrow> exc + slide_info list" where
  "collect_slides_info prs [] = Inr []"
| "collect_slides_info prs (sl # sls) =
     (case extract_slide_title_and_bbox prs sl of
        Inl e \<Rightarrow> Inl e
      | Inr info \<Rightarrow>
          (case collect_slides_info prs sls of Inl e \<Rightarrow> Inl e | Inr infos \<Rightarrow> Inr (info # infos)))"

text \<open>The body of the \<^verbatim>\<open>try\<close> (lines 205-247).\<close>

definition try_body :: "env \<Rightarrow> bool \<Rightarrow> bool \<Rightarrow> int \<Rightarrow> int \<Rightarrow> run" where
  "try_body ev remove_title autocrop crop_margin scale_percent =
     (case load_presentation ev of
        Inl e \<Rightarrow> raising e
      | Inr prs \<Rightarrow>
          (case collect_slides_info prs (slides prs) of
             Inl e \<Rightarrow> raising e
           | Inr slides_info \<Rightarrow>
               if which_soffice ev \<or> which_libreoffice ev
               then use_libreoffice_method ev slides_info remove_title autocrop crop_margin
                      scale_percent
               else gave_up LibreOfficeMissing))"

text \<open>
  \<^verbatim>\<open>
  if not os.path.exists(pptx_path):
      print(...)
      return
  os.makedirs(output_dir, exist_ok=True)
  existing_files = [f for f in os.listdir(output_dir) if f.lower().endswith('.png')]
  ...
  try:
      ...
  except Exception as e:
      print(f"... {e}")
      traceback.print_exc()
  \<close>
  The directory is created and listed before the \<^verbatim>\<open>try\<close>.
\<close>

definition pptx_to_png_transparent :: "env \<Rightarrow> bool \<Rightarrow> bool \<Rightarrow> int \<Rightarrow> int \<Rightarrow> run" where
  "pptx_to_png_transparent ev remove_title autocrop crop_margin scale_percent =
     (if \<not> path_exists ev then gave_up InputNotFound
      else case makedirs_error ev of
        Some e \<Rightarrow> raising e
      | None \<Rightarrow>
          (case listdir_error ev of
             Some e \<Rightarrow> raising e
           | None \<Rightarrow>
               (let r = try_body ev remove_title autocrop crop_margin scale_percent in
                case raised r of
                  Some e \<Rightarrow> r\<lparr>printed := printed r @ [ErrorTrace e], raised := None\<rparr>
                | None \<Rightarrow> r)))"

subsection \<open>The command line\<close>

text \<open>
  \<^verbatim>\<open>int(s)\<close> of a string: white space stripped, an optional sign, then decimal digits
  that single underscores may separate; anything else is a \<^verbatim>\<open>ValueError\<close>.
  \<^verbatim>\<open>s.isdigit()\<close> holds of a non-empty string of digit characters, which below U+0100
  are the ASCII digits and the superscripts U+00B2, U+00B3 and U+00B9 (that \<^verbatim>\<open>int\<close>
  refuses). Both tables are exact for code points below U+0100; the digits of other
  scripts are not in them.
\<close>

definition is_decimal :: "nat \<Rightarrow> bool" where
  "is_decimal c = (48 \<le> c \<and> c \<le> 57)"

definition is_digit_char :: "nat \<Rightarrow> bool" where
  "is_digit_char c = (is_decimal c \<or> c = 178 \<or> c = 179 \<or> c = 185)"

definition py_isdigit :: "pystr \<Rightarrow> bool" where
  "py_isdigit s = (s \<noteq> [] \<and> list_all is_digit_char s)"

fun digits_ok :: "pystr \<Rightarrow> bool" where
  "digits_ok [] = False"
| "digits_ok [c] = is_decimal c"
| "digits_ok (c # d # cs) =
     (is_decimal c \<and> (if d = 95 then digits_ok cs else digits_ok (d # cs)))"

definition digits_value :: "pystr \<Rightarrow> nat" where
  "digits_value s = fold (\<lambda>c n. 10 * n + (c - 48)) (filter (\<lambda>c. c \<noteq> 95) s) 0"

definition py_int_of_str :: "pystr \<Rightarrow> exc + int" where
  "py_int_of_str s =
     (let t = py_strip s;
          negative = (t \<noteq> [] \<and> hd t = 45);
          body = (if t \<noteq> [] \<and> (hd t = 45 \<or> hd t = 43) then tl t else t)
      in if digits_ok body
         then Inr (if negative then - int (digits_value body) else int (digits_value body))
         else Inl ValueError)"

text \<open>\<^verbatim>\<open>s.split('=')\<close> and \<^verbatim>\<open>s.startswith(p)\<close>.\<close>

fun split_on :: "nat \<Rightarrow> pystr \<Rightarrow> pystr \<Rightarrow> pystr list" where
  "split_on sep [] w = [w]"
| "split_on sep (c # cs) w = (if c = sep then w # split_on sep cs [] else split_on sep cs (w @ [c]))"

definition startswith :: "pystr \<Rightarrow> pystr \<Rightarrow> bool" where
  "startswith s p = (take (length p) s = p)"

text \<open>\<^verbatim>\<open>int(arg.split('=')[1])\<close>\<close>

definition int_after_equals :: "pystr \<Rightarrow> exc + int" where
  "int_after_equals arg =
     (case split_on 61 arg [] of
        a # b # rest \<Rightarrow> py_int_of_str b
      | _ \<Rightarrow> Inl IndexError)"

text \<open>
  \<^verbatim>\<open>
  resolution = 300
  keep_title = False
  do_autocrop = True
  margin = 20
  scale = 100
  for arg in sys.argv[3:]:
      if arg == '--keep-title':
          keep_title = True
      elif arg == '--no-crop':
          do_autocrop = False
      elif arg.startswith('--crop-margin='):
          margin = int(arg.split('=')[1])
      elif arg.startswith('--scale='):
          scale = int(arg.split('=')[1])
      elif arg.isdigit():
          resolution = int(arg)
  \<close>
\<close>

text \<open>The five variables of the loop, as the fields of one record.\<close>

record cli =
  cli_resolution :: int
  cli_keep_title :: bool
  cli_do_autocrop :: bool
  cli_margin :: int
  cli_scale :: int

definition default_cli :: cli where
  "default_cli = \<lparr>cli_resolution = 300, cli_keep_title = False, cli_do_autocrop = True, cli_margin = 20, cli_scale = 100\<rparr>"

fun parse_options :: "pystr list \<Rightarrow> cli \<Rightarrow> exc + cli" where
  "parse_options [] c = Inr c"
| "parse_options (arg # rest) c =
     (if arg = py ''--keep-title'' then parse_options rest (c\<lparr>cli_keep_title := True\<rparr>)
      else if arg = py ''--no-crop'' then parse_options rest (c\<lparr>cli_do_autocrop := False\<rparr>)
      else if startswith arg (py ''--crop-margin='') then
        (case int_after_equals arg of
           Inl e \<Rightarrow> Inl e
         | Inr n \<Rightarrow> parse_options rest (c\<lparr>cli_margin := n\<rparr>))
      else if startswith arg (py ''--scale='') then
        (case int_after_equals arg of
           Inl e \<Rightarrow> Inl e
         | Inr n \<Rightarrow> parse_options rest (c\<lparr>cli_scale := n\<rparr>))
      else if py_isdigit arg then
        (case py_int_of_str arg of
           Inl e \<Rightarrow> Inl e
         | Inr n \<Rightarrow> parse_options rest (c\<lparr>cli_resolution := n\<rparr>))
      else parse_options rest c)"

text \<open>
  The program: the usage text and \<^verbatim>\<open>sys.exit(1)\<close> without a source path; otherwise the
  options are read and \<^verbatim>\<open>pptx_to_png_transparent\<close> is called. The exit status is 0 when
  the call returns and 1 when an exception leaves the program.
\<close>

definition main_program :: "pystr list \<Rightarrow> env \<Rightarrow> run \<times> nat" where
  "main_program argv ev =
     (if length argv < 2 then (gave_up Usage, 1)
      else case parse_options (drop 3 argv) default_cli of
        Inl e \<Rightarrow> (raising e, 1)
      | Inr c \<Rightarrow>
          (let r = pptx_to_png_transparent ev (\<not> cli_keep_title c) (cli_do_autocrop c) (cli_margin c) (cli_scale c)
           in (r, if raised r = None then 0 else 1)))"

section \<open>The rectangle the specification describes\<close>

text \<open>
  The specification's words for the Content Autocropper, as definitions of their own: the
  pixels of non-zero alpha, a rectangle that contains them all (right and lower
  exclusive, as Pillow's boxes are), the minimal such rectangle, its expansion by a margin
  on all sides and the clamping of a rectangle to the image bounds.
\<close>

type_synonym box = "int \<times> int \<times> int \<times> int"

definition nonzero_alpha :: "image \<Rightarrow> nat \<Rightarrow> nat \<Rightarrow> bool" where
  "nonzero_alpha img x y = (x < width img \<and> y < height img \<and> alpha (pixel_at img x y) \<noteq> 0)"

fun encloses :: "image \<Rightarrow> box \<Rightarrow> bool" where
  "encloses img (left, upper, right, lower) =
     (\<forall>x y. nonzero_alpha img x y \<longrightarrow> left \<le> int x \<and> int x < right \<and> upper \<le> int y \<and> int y < lower)"

fun inside_box :: "box \<Rightarrow> box \<Rightarrow> bool" where
  "inside_box (l, u, r, d) (l', u', r', d') = (l' \<le> l \<and> u' \<le> u \<and> r \<le> r' \<and> d \<le> d')"

definition minimal_rect :: "image \<Rightarrow> box \<Rightarrow> bool" where
  "minimal_rect img b = (encloses img b \<and> (\<forall>b'. encloses img b' \<longrightarrow> inside_box b b'))"

fun expand_box :: "box \<Rightarrow> int \<Rightarrow> box" where
  "expand_box (left, upper, right, lower) margin =
     (left - margin, upper - margin, right + margin, lower + margin)"

definition clamp :: "int \<Rightarrow> int \<Rightarrow> int \<Rightarrow> int" where
  "clamp lo hi v = max lo (min hi v)"

fun clamp_box :: "image \<Rightarrow> box \<Rightarrow> box" where
  "clamp_box img (left, upper, right, lower) =
     (clamp 0 (int (width img)) left, clamp 0 (int (height img)) upper,
      clamp 0 (int (width img)) right, clamp 0 (int (height img)) lower)"

fun not_inverted :: "box \<Rightarrow> bool" where
  "not_inverted (left, upper, right, lower) = (left \<le> right \<and> upper \<le> lower)"

section \<open>The names the specification describes\<close>

text \<open>
  A slide descriptor counts for the name \<open>S\<close> when its title is truthy and sanitizes to
  \<open>S\<close>; the occurrence number of \<open>S\<close> at position \<open>i\<close> (from 0) is the number of
  slides up to and including that position that count for \<open>S\<close>.
\<close>

definition titled :: "pystr \<Rightarrow> slide_info \<Rightarrow> bool" where
  "titled S info = (case fst info of None \<Rightarrow> False | Some t \<Rightarrow> t \<noteq> [] \<and> sanitize_filename t = S)"

definition occurrence :: "slide_info list \<Rightarrow> nat \<Rightarrow> pystr \<Rightarrow> nat" where
  "occurrence infos i S = length (filter (titled S) (take (Suc i) infos))"

text \<open>
  The name the specification gives the file of the slide at position \<open>i\<close> (from 0): the
  sanitized title unchanged at its first occurrence, with \<^verbatim>\<open>_N\<close> appended at its N-th
  occurrence (N = 2, 3, ...), and \<^verbatim>\<open>Slide_<position>.png\<close>, the position counted from 1,
  when the slide has no title.
\<close>

definition positional_name :: "nat \<Rightarrow> pystr" where
  "positional_name n = py ''Slide_'' @ py_str n @ py ''.png''"

definition expected_name :: "slide_info list \<Rightarrow> nat \<Rightarrow> pystr" where
  "expected_name infos i =
     (case fst (infos ! i) of
        None \<Rightarrow> positional_name (i + 1)
      | Some t \<Rightarrow>
          if t = [] then positional_name (i + 1)
          else if occurrence infos i (sanitize_filename t) = 1 then sanitize_filename t @ py ''.png''
          else sanitize_filename t @ py ''_'' @ py_str (occurrence infos i (sanitize_filename t))
                 @ py ''.png'')"

text \<open>The Output Name Registry after the slides \<open>seen\<close>.\<close>

definition registry_of :: "slide_info list \<Rightarrow> registry" where
  "registry_of seen S =
     (if filter (titled S) seen = [] then None else Some (length (filter (titled S) seen)))"


section \<open>A run of four slides\<close>

text \<open>
  A deck whose first two slides are both titled \<^verbatim>\<open>Intro\<close>, whose third slide has no
  title shape and only a picture, and whose fourth slide has a title placeholder with empty
  text; its pages rendered as 2 by 2 opaque black RGB images; and an environment in which
  every tool is present and every step succeeds.
\<close>

definition intro_slide :: slide where
  "intro_slide =
     \<lparr>title_shape = Some \<lparr>shp_text = Some (py ''Intro''), shp_left = 10, shp_top = 10,
                             shp_width = 50, shp_height = 20\<rparr>,
      shapes = []\<rparr>"

definition picture_slide :: slide where
  "picture_slide =
     \<lparr>title_shape = None,
      shapes = [\<lparr>shp_text = None, shp_left = 0, shp_top = 0, shp_width = 100, shp_height = 100\<rparr>]\<rparr>"

definition empty_title_slide :: slide where
  "empty_title_slide =
     \<lparr>title_shape = Some \<lparr>shp_text = Some [], shp_left = 10, shp_top = 10,
                             shp_width = 50, shp_height = 20\<rparr>,
      shapes = [\<lparr>shp_text = Some (py ''Body''), shp_left = 0, shp_top = 50,
                 shp_width = 100, shp_height = 50\<rparr>]\<rparr>"

definition four_slides :: presentation where
  "four_slides =
     \<lparr>slide_width = 100, slide_height = 100,
      slides = [intro_slide, intro_slide, picture_slide, empty_title_slide]\<rparr>"

definition black_page :: image where
  "black_page = \<lparr>mode = ModeRGB, width = 2, height = 2, data = replicate 4 (0, 0, 0, 0)\<rparr>"

definition four_slides_env :: env where
  "four_slides_env =
     \<lparr>path_exists = True, makedirs_error = None, listdir_error = None,
      load_presentation = Inr four_slides,
      which_soffice = True, which_libreoffice = False,
      run_soffice = Exited0, run_libreoffice = NotFound,
      pdf_exists = True, run_pdftoppm = Exited0,
      png_files = replicate 4 (Inr black_page),
      save_error = (\<lambda>name. None),
      lanczos_filter = (\<lambda>img w h. replicate (w * h) (0, 0, 0, 0))\<rparr>"

section \<open>Properties\<close>

subsection \<open>Background Transparency Filter\<close>

lemma byte_above_250: "(250 < (r::8 word)) = (251 \<le> r)"
  by (simp add: word_less_nat_alt word_le_nat_alt) arith

text \<open>
  C1. The filter keeps the mode, the size and the number of pixels of the image; every
  pixel whose red, green and blue bands are all at least 251 (strictly above 250) becomes
  (255, 255, 255, 0), and every other pixel is left as it was, alpha included.
\<close>

theorem background_filter_pixels:
  "mode (background_filter img) = mode img
   \<and> width (background_filter img) = width img
   \<and> height (background_filter img) = height img
   \<and> length (data (background_filter img)) = length (data img)
   \<and> (\<forall>i < length (data img). case data img ! i of (r, g, b, a) \<Rightarrow>
         data (background_filter img) ! i =
           (if 251 \<le> r \<and> 251 \<le> g \<and> 251 \<le> b then (255, 255, 255, 0) else (r, g, b, a)))"
  by (auto simp: background_filter_def byte_above_250 split: prod.splits)

theorem background_filter_pixels_witness:
  "data (background_filter
      \<lparr>mode = ModeRGBA, width = 3, height = 1,
       data = [(255, 251, 252, 7), (255, 250, 255, 9), (0, 0, 0, 0)]\<rparr>) ! 0 = (255, 255, 255, 0)
   \<and> data (background_filter
      \<lparr>mode = ModeRGBA, width = 3, height = 1,
       data = [(255, 251, 252, 7), (255, 250, 255, 9), (0, 0, 0, 0)]\<rparr>) ! 1 = (255, 250, 255, 9)"
  using background_filter_pixels
    [of "\<lparr>mode = ModeRGBA, width = 3, height = 1,
          data = [(255, 251, 252, 7), (255, 250, 255, 9), (0, 0, 0, 0)]\<rparr>"]
  by (simp add: background_filter_def)

subsection \<open>Filename Sanitizer\<close>

lemma split_words_Nil: "(split_words t w = []) = (w = [] \<and> (\<forall>c\<in>set t. is_space c))"
  by (induction t arbitrary: w) auto

lemma join_Cons: "ws \<noteq> [] \<Longrightarrow> py_join sep (w # ws) = w @ sep @ py_join sep ws"
  by (cases ws) auto

lemma join_split_tidy:
  "spaced_ok t \<Longrightarrow> (t \<noteq> [] \<longrightarrow> \<not> is_space (last t)) \<Longrightarrow> (w = [] \<longrightarrow> t \<noteq> [] \<longrightarrow> \<not> is_space (hd t))
   \<Longrightarrow> py_join [32] (split_words t w) = w @ t"
proof (induction t arbitrary: w)
  case Nil
  then show ?case by simp
next
  case (Cons c cs)
  show ?case
  proof (cases "is_space c")
    case True
    with Cons.prems have c: "c = 32" and w: "w \<noteq> []" and cs: "cs \<noteq> []" and h: "\<not> is_space (hd cs)"
      by (auto split: if_splits)
    from Cons.prems cs have "py_join [32] (split_words cs []) = [] @ cs"
      by (intro Cons.IH) (auto simp: h)
    moreover have "split_words cs [] \<noteq> []"
      using cs h by (cases cs) (auto simp: split_words_Nil)
    ultimately show ?thesis using True w c by (simp add: join_Cons)
  next
    case False
    from Cons.prems have "py_join [32] (split_words cs (w @ [c])) = (w @ [c]) @ cs"
      by (intro Cons.IH) (auto split: if_splits)
    then show ?thesis using False by simp
  qed
qed

lemma tidy_join_split: "tidy t \<Longrightarrow> py_join [32] (py_split t) = t"
  using join_split_tidy[of t "[]"] by (auto simp: tidy_def py_split_def)


lemma spaced_ok_prefix: "spaced_ok (xs @ ys) \<Longrightarrow> spaced_ok xs"
  by (induction xs) (auto simp: hd_append split: if_splits)

lemma spaced_ok_word: "\<forall>c\<in>set w. \<not> is_space c \<Longrightarrow> spaced_ok (w @ xs) = spaced_ok xs"
  by (induction w) auto

lemma split_words_ok:
  "\<forall>c\<in>set w. \<not> is_space c \<Longrightarrow> \<forall>u\<in>set (split_words t w). u \<noteq> [] \<and> (\<forall>c\<in>set u. \<not> is_space c)"
proof (induction t arbitrary: w)
  case Nil
  then show ?case by simp
next
  case (Cons a t)
  have e: "\<forall>u\<in>set (split_words t []). u \<noteq> [] \<and> (\<forall>c\<in>set u. \<not> is_space c)"
    by (rule Cons.IH) simp
  show ?case
  proof (cases "is_space a")
    case True
    then show ?thesis using e Cons.prems by simp
  next
    case False
    have "\<forall>u\<in>set (split_words t (w @ [a])). u \<noteq> [] \<and> (\<forall>c\<in>set u. \<not> is_space c)"
      by (rule Cons.IH) (use False Cons.prems in simp)
    then show ?thesis using False by simp
  qed
qed

lemma join_words_tidy:
  "\<forall>u\<in>set ws. u \<noteq> [] \<and> (\<forall>c\<in>set u. \<not> is_space c) \<Longrightarrow> tidy (py_join [32] ws) \<and> (ws \<noteq> [] \<longrightarrow> py_join [32] ws \<noteq> [])"
proof (induction "[32::nat]" ws rule: py_join.induct)
  case 1
  then show ?case by (simp add: tidy_def)
next
  case (2 w)
  then have w: "w \<noteq> []" "\<forall>c\<in>set w. \<not> is_space c" by auto
  then have "spaced_ok (w @ [])" by (simp only: spaced_ok_word) simp
  then show ?case using w by (simp add: tidy_def)
next
  case (3 w v ws)
  then have R: "tidy (py_join [32] (v # ws))" and ne: "py_join [32] (v # ws) \<noteq> []"
    and w: "w \<noteq> []" "\<forall>c\<in>set w. \<not> is_space c"
    by auto
  have "spaced_ok (w @ 32 # py_join [32] (v # ws))"
    using R ne w by (simp add: spaced_ok_word tidy_def)
  then show ?case using R ne w by (cases w) (auto simp: tidy_def)
qed

lemma tidy_join_split_any: "tidy (py_join [32] (py_split t))"
  using join_words_tidy[of "py_split t"] split_words_ok[of "[]" t] by (simp add: py_split_def)

lemma rstrip_decomp: "u = rev (dropWhile P (rev u)) @ rev (takeWhile P (rev u))"
proof -
  have "u = rev (takeWhile P (rev u) @ dropWhile P (rev u))" by simp
  also have "\<dots> = rev (dropWhile P (rev u)) @ rev (takeWhile P (rev u))" by (rule rev_append)
  finally show ?thesis .
qed

lemma strip_tidy:
  assumes "spaced_ok u" and "u \<noteq> [] \<longrightarrow> \<not> is_space (hd u)"
  shows "tidy (py_strip u)"
proof -
  let ?r = "rev (dropWhile is_space (rev u))"
  have d: "dropWhile is_space u = u" using assms(2) by (cases u) auto
  have dec: "u = ?r @ rev (takeWhile is_space (rev u))" by (rule rstrip_decomp)
  have ok: "spaced_ok ?r" using assms(1) dec spaced_ok_prefix by metis
  have l: "?r \<noteq> [] \<Longrightarrow> \<not> is_space (last ?r)"
    by (simp add: last_rev hd_dropWhile)
  have h: "?r \<noteq> [] \<Longrightarrow> hd ?r = hd u" using dec by (metis hd_append2)
  have "?r \<noteq> [] \<Longrightarrow> u \<noteq> []" by auto
  with ok l h assms(2) show ?thesis by (simp add: py_strip_def d tidy_def)
qed

lemma tidy_strip_id: "tidy t \<Longrightarrow> py_strip t = t"
proof -
  assume t: "tidy t"
  show ?thesis
  proof (cases "t = []")
    case True then show ?thesis by (simp add: py_strip_def)
  next
    case False
    with t have h: "\<not> is_space (hd t)" and l: "\<not> is_space (last t)" by (auto simp: tidy_def)
    have "dropWhile is_space t = t" using h False by (cases t) auto
    moreover have "dropWhile is_space (rev t) = rev t"
      using l False by (cases "rev t") (auto simp: last_rev[symmetric] hd_rev)
    ultimately show ?thesis by (simp add: py_strip_def)
  qed
qed

lemma set_fold_replace: "set (fold py_replace_char cs t) = set t - set cs"
  by (induction cs arbitrary: t) (auto simp: py_replace_char_def)

lemma fold_replace_id: "set t \<inter> set cs = {} \<Longrightarrow> fold py_replace_char cs t = t"
proof (induction cs arbitrary: t)
  case Nil then show ?case by simp
next
  case (Cons c cs)
  then have "py_replace_char c t = t" by (auto simp: py_replace_char_def filter_id_conv)
  with Cons show ?case by auto
qed

lemma set_join_split: "set (py_join [32] (split_words t w)) \<subseteq> insert 32 (set w \<union> set t)"
proof (induction t arbitrary: w)
  case Nil then show ?case by auto
next
  case (Cons c cs)
  have j: "set (py_join [32] (w # ws)) \<subseteq> insert 32 (set w \<union> set (py_join [32] ws))" for ws
    by (cases ws) auto
  show ?case
  proof (cases "is_space c")
    case True
    then show ?thesis using Cons[of "[]"] j[of "split_words cs []"] by auto
  next
    case False
    then show ?thesis using Cons[of "w @ [c]"] by auto
  qed
qed

lemma set_strip: "set (py_strip s) \<subseteq> set s"
  by (auto simp: py_strip_def dest!: set_dropWhileD)

lemma length_strip: "length (py_strip s) \<le> length s"
proof -
  have "length (py_strip s) \<le> length (dropWhile is_space s)"
    unfolding py_strip_def by (metis length_rev length_dropWhile_le)
  also have "\<dots> \<le> length s" by (rule length_dropWhile_le)
  finally show ?thesis .
qed

lemma sanitize_fixed: "sanitized_name t \<Longrightarrow> sanitize_filename t = t"
proof -
  assume a: "sanitized_name t"
  then have t: "tidy t" by (simp add: sanitized_name_def tidy_def)
  from a have "fold py_replace_char invalid_chars t = t"
    by (intro fold_replace_id) (simp add: sanitized_name_def)
  then show ?thesis using a t
    by (simp add: sanitize_filename_def Let_def tidy_join_split tidy_strip_id sanitized_name_def)
qed

lemma sanitize_sanitized: "sanitized_name (sanitize_filename t)"
proof -
  define t1 where "t1 = fold py_replace_char invalid_chars t"
  define t2 where "t2 = py_join [32] (py_split t1)"
  define t3 where "t3 = take 100 t2"
  have s: "sanitize_filename t = py_strip t3"
    by (simp add: sanitize_filename_def Let_def t1_def t2_def t3_def)
  have t2: "tidy t2" unfolding t2_def by (rule tidy_join_split_any)
  have "t2 = t3 @ drop 100 t2" by (simp add: t3_def)
  then have ok3: "spaced_ok t3" using t2 spaced_ok_prefix unfolding tidy_def by metis
  have h3: "t3 \<noteq> [] \<longrightarrow> \<not> is_space (hd t3)"
    using t2 by (auto simp: t3_def tidy_def)
  have tidy: "tidy (py_strip t3)" using ok3 h3 by (rule strip_tidy)
  have "set t2 \<subseteq> insert 32 (set t1)"
    using set_join_split[of t1 "[]"] by (simp add: t2_def py_split_def)
  moreover have "set t3 \<subseteq> set t2" by (simp add: t3_def set_take_subset)
  moreover have "set t1 \<inter> set invalid_chars = {}" by (auto simp: t1_def set_fold_replace)
  moreover have "32 \<notin> set invalid_chars" by (simp add: invalid_chars_def)
  ultimately have inv: "set (py_strip t3) \<inter> set invalid_chars = {}"
    using set_strip[of t3] by blast
  have "length (py_strip t3) \<le> length t3" by (rule length_strip)
  then have len: "length (py_strip t3) \<le> 100" by (simp add: t3_def)
  show ?thesis using tidy inv len by (simp add: s sanitized_name_def tidy_def)
qed

text \<open>
  C6. The sanitizer is a function of its argument alone, and it is idempotent: sanitizing
  a sanitized text changes nothing. Its results are sanitized names (no invalid character,
  white space only as single spaces between other characters, at most 100 characters),
  and every sanitized name is returned unchanged.
\<close>

theorem sanitize_filename_idempotent:
  "sanitize_filename (sanitize_filename t) = sanitize_filename t
   \<and> sanitized_name (sanitize_filename t)
   \<and> (sanitized_name u \<longrightarrow> sanitize_filename u = u)"
  using sanitize_fixed[OF sanitize_sanitized[of t]] sanitize_sanitized[of t] sanitize_fixed[of u] by blast

theorem sanitize_filename_idempotent_witness:
  "sanitize_filename (sanitize_filename (py ''  a<b  c:d e?  '')) = sanitize_filename (py ''  a<b  c:d e?  '')
   \<and> sanitize_filename (py ''ab cd e'') = py ''ab cd e''"
proof -
  have "sanitized_name (py ''ab cd e'')"
    by (simp add: sanitized_name_def py_def invalid_chars_def is_space_def)
  then show ?thesis
    using sanitize_filename_idempotent [of "py ''  a<b  c:d e?  ''" "py ''ab cd e''"] by blast
qed

subsection \<open>Content Autocropper\<close>

lemma set_nonzero_columns: "set (nonzero_columns img) = {x. \<exists>y. nonzero_alpha img x y}"
  by (auto simp: nonzero_columns_def nonzero_alpha_def list_ex_iff)

lemma set_nonzero_rows: "set (nonzero_rows img) = {y. \<exists>x. nonzero_alpha img x y}"
  by (auto simp: nonzero_rows_def nonzero_alpha_def list_ex_iff)

lemma sorted_nonzero: "sorted (nonzero_columns img)" "sorted (nonzero_rows img)"
  by (simp_all add: nonzero_columns_def nonzero_rows_def sorted_wrt_filter)

lemma sorted_hd_last: "sorted xs \<Longrightarrow> (x::nat) \<in> set xs \<Longrightarrow> hd xs \<le> x \<and> x \<le> last xs"
proof (induction xs)
  case Nil then show ?case by simp
next
  case (Cons a xs)
  then show ?case by (cases "xs = []") (auto simp: dest: last_in_set)
qed

lemma rows_empty_iff: "(nonzero_rows img = []) = (nonzero_columns img = [])"
proof -
  have "(set (nonzero_rows img) = {}) = (set (nonzero_columns img) = {})"
    unfolding set_nonzero_columns set_nonzero_rows by blast
  then show ?thesis by simp
qed

lemma getbbox_None: "(getbbox img = None) = (\<not> (\<exists>x y. nonzero_alpha img x y))"
proof -
  have "(nonzero_columns img = []) = (set (nonzero_columns img) = {})" by simp
  also have "\<dots> = (\<not> (\<exists>x y. nonzero_alpha img x y))" unfolding set_nonzero_columns by blast
  finally show ?thesis by (simp add: getbbox_def)
qed

lemma getbbox_Some:
  assumes "getbbox img = Some (l, u, r, d)"
  shows "minimal_rect img (l, u, r, d) \<and> 0 \<le> l \<and> l < r \<and> r \<le> int (width img)
         \<and> 0 \<le> u \<and> u < d \<and> d \<le> int (height img)"
proof -
  let ?cs = "nonzero_columns img" and ?rs = "nonzero_rows img"
  from assms have cs: "?cs \<noteq> []" and rs: "?rs \<noteq> []"
    and l: "l = int (hd ?cs)" and r: "r = int (last ?cs) + 1"
    and u: "u = int (hd ?rs)" and d: "d = int (last ?rs) + 1"
    by (auto simp: getbbox_def rows_empty_iff split: if_splits)
  have hc: "hd ?cs \<in> set ?cs" and lc: "last ?cs \<in> set ?cs"
    and hr: "hd ?rs \<in> set ?rs" and lr: "last ?rs \<in> set ?rs"
    using cs rs by simp_all
  have enc: "encloses img (l, u, r, d)"
  proof -
    have "l \<le> int x \<and> int x < r \<and> u \<le> int y \<and> int y < d" if "nonzero_alpha img x y" for x y
    proof -
      from that have "x \<in> set ?cs" "y \<in> set ?rs"
        by (auto simp: set_nonzero_columns set_nonzero_rows)
      then show ?thesis
        using sorted_hd_last[OF sorted_nonzero(1), of x img] sorted_hd_last[OF sorted_nonzero(2), of y img]
        by (simp add: l r u d)
    qed
    then show ?thesis by simp
  qed
  have least: "inside_box (l, u, r, d) b'" if e: "encloses img b'" for b'
  proof -
    obtain l' u' r' d' where b': "b' = (l', u', r', d')" by (cases b') auto
    from hc obtain y1 where "nonzero_alpha img (hd ?cs) y1" by (auto simp: set_nonzero_columns)
    with e have 1: "l' \<le> l" by (auto simp: b' l)
    from lc obtain y2 where "nonzero_alpha img (last ?cs) y2" by (auto simp: set_nonzero_columns)
    with e have "int (last ?cs) < r'" unfolding b' by auto
    then have 2: "r \<le> r'" by (simp add: r)
    from hr obtain x1 where "nonzero_alpha img x1 (hd ?rs)" by (auto simp: set_nonzero_rows)
    with e have 3: "u' \<le> u" by (auto simp: b' u)
    from lr obtain x2 where "nonzero_alpha img x2 (last ?rs)" by (auto simp: set_nonzero_rows)
    with e have "int (last ?rs) < d'" unfolding b' by auto
    then have 4: "d \<le> d'" by (simp add: d)
    from 1 2 3 4 show ?thesis by (simp add: b')
  qed
  have bounds: "hd ?cs < width img" "last ?cs < width img" "hd ?rs < height img" "last ?rs < height img"
    using hc lc hr lr by (auto simp: set_nonzero_columns set_nonzero_rows nonzero_alpha_def)
  have "hd ?cs \<le> last ?cs" "hd ?rs \<le> last ?rs"
    using sorted_hd_last[OF sorted_nonzero(1) lc] sorted_hd_last[OF sorted_nonzero(2) lr] by auto
  with enc least bounds show ?thesis by (simp add: minimal_rect_def l r u d)
qed

lemma autocrop_box_clamp:
  assumes "0 \<le> l" "l < r" "r \<le> int (width img)" "0 \<le> u" "u < d" "d \<le> int (height img)"
    and "not_inverted (expand_box (l, u, r, d) margin)"
  shows "autocrop_box img (l, u, r, d) margin = clamp_box img (expand_box (l, u, r, d) margin)"
    and "not_inverted (autocrop_box img (l, u, r, d) margin)"
  using assms by (auto simp: clamp_def)

lemma nonneg_margin_not_inverted:
  "l < r \<Longrightarrow> u < d \<Longrightarrow> 0 \<le> margin \<Longrightarrow> not_inverted (expand_box (l, u, r, d) margin)"
  by simp


lemma minimal_rect_unique: "minimal_rect img b \<Longrightarrow> minimal_rect img b' \<Longrightarrow> b' = b"
proof -
  assume a: "minimal_rect img b" and a': "minimal_rect img b'"
  then have "inside_box b b'" "inside_box b' b" unfolding minimal_rect_def by blast+
  then show ?thesis by (cases b; cases b') auto
qed

lemma crop_ok:
  "not_inverted b \<Longrightarrow> \<exists>out. crop img b = Inr out \<and> mode out = mode img
     \<and> (case b of (l, u, r, d) \<Rightarrow> int (width out) = r - l \<and> int (height out) = d - u)"
  by (cases b) auto

lemma autocrop_on_bbox:
  assumes rgba: "mode img = ModeRGBA" and b: "getbbox img = Some b"
    and ni: "not_inverted (expand_box b margin)"
  shows "autocrop_image img margin = crop img (clamp_box img (expand_box b margin))
         \<and> (\<exists>out. autocrop_image img margin = Inr out \<and> mode out = ModeRGBA
               \<and> (case clamp_box img (expand_box b margin) of (l, u, r, d) \<Rightarrow>
                     0 \<le> l \<and> l \<le> r \<and> r \<le> int (width img)
                     \<and> 0 \<le> u \<and> u \<le> d \<and> d \<le> int (height img)
                     \<and> int (width out) = r - l \<and> int (height out) = d - u))"
proof -
  obtain l u r d where lurd: "b = (l, u, r, d)" by (cases b) auto
  note g = getbbox_Some[OF b[unfolded lurd]]
  have e: "ensure_rgba img = img" using rgba by (simp add: ensure_rgba_def)
  have ac: "autocrop_image img margin = crop img (autocrop_box img b margin)"
    by (simp add: autocrop_image_def e b)
  have eq: "autocrop_box img b margin = clamp_box img (expand_box b margin)"
    and ni': "not_inverted (autocrop_box img b margin)"
    using autocrop_box_clamp[of l r img u d margin] g ni unfolding lurd by blast+
  obtain l' u' r' d' where cb: "clamp_box img (expand_box b margin) = (l', u', r', d')"
    by (cases "clamp_box img (expand_box b margin)") auto
  have ord: "l' \<le> r'" "u' \<le> d'" using ni' unfolding eq cb by simp_all
  have bd: "0 \<le> l'" "r' \<le> int (width img)" "0 \<le> u'" "d' \<le> int (height img)"
    using cb unfolding lurd by (auto simp: clamp_def)
  have cr: "crop img (l', u', r', d') =
     Inr \<lparr>mode = mode img, width = nat (r' - l'), height = nat (d' - u'),
          data = concat (map (\<lambda>y. map (\<lambda>x. source_pixel img (l' + int x) (u' + int y))
                                       [0..<nat (r' - l')]) [0..<nat (d' - u')])\<rparr>"
    using ord by simp
  show ?thesis
    unfolding ac eq cb cr using ord bd rgba by simp
qed

text \<open>
  C2 (as amended). For an RGBA image with a pixel of non-zero alpha, \<^verbatim>\<open>getbbox\<close> gives
  the one minimal rectangle that contains all pixels of non-zero alpha; whenever that
  rectangle expanded by the margin is not inverted, which every margin from 0 upwards
  ensures, the Autocropper returns the crop to the expanded rectangle clamped to the image
  bounds, an RGBA image of that rectangle's size. For a fully transparent image it returns
  the 100 by 100 crop from the origin.
\<close>

theorem autocrop_image_crop:
  assumes "mode img = ModeRGBA"
  shows "((\<exists>x y. nonzero_alpha img x y) \<longrightarrow>
           (\<exists>b. getbbox img = Some b \<and> minimal_rect img b \<and> (\<forall>b'. minimal_rect img b' \<longrightarrow> b' = b)
              \<and> (0 \<le> margin \<longrightarrow> not_inverted (expand_box b margin))
              \<and> (not_inverted (expand_box b margin) \<longrightarrow>
                   autocrop_image img margin = crop img (clamp_box img (expand_box b margin))
                   \<and> (\<exists>out. autocrop_image img margin = Inr out \<and> mode out = ModeRGBA
                         \<and> (case clamp_box img (expand_box b margin) of (l, u, r, d) \<Rightarrow>
                               0 \<le> l \<and> l \<le> r \<and> r \<le> int (width img)
                               \<and> 0 \<le> u \<and> u \<le> d \<and> d \<le> int (height img)
                               \<and> int (width out) = r - l \<and> int (height out) = d - u)))))
       \<and> (\<not> (\<exists>x y. nonzero_alpha img x y) \<longrightarrow>
            autocrop_image img margin = crop img (0, 0, 100, 100)
            \<and> (\<exists>out. autocrop_image img margin = Inr out \<and> mode out = ModeRGBA
                  \<and> width out = 100 \<and> height out = 100))"
proof (rule conjI; rule impI)
  assume "\<exists>x y. nonzero_alpha img x y"
  then obtain b where b: "getbbox img = Some b"
    using getbbox_None[of img] by (cases "getbbox img") auto
  obtain l u r d where lurd: "b = (l, u, r, d)" by (cases b) auto
  note g = getbbox_Some[OF b[unfolded lurd]]
  have mr: "minimal_rect img b" using g lurd by simp
  have un: "\<forall>b'. minimal_rect img b' \<longrightarrow> b' = b"
    using minimal_rect_unique[OF mr] by blast
  have 1: "0 \<le> margin \<longrightarrow> not_inverted (expand_box b margin)"
    using g unfolding lurd by simp
  have 2: "not_inverted (expand_box b margin) \<longrightarrow>
                   autocrop_image img margin = crop img (clamp_box img (expand_box b margin))
                   \<and> (\<exists>out. autocrop_image img margin = Inr out \<and> mode out = ModeRGBA
                         \<and> (case clamp_box img (expand_box b margin) of (l, u, r, d) \<Rightarrow>
                               0 \<le> l \<and> l \<le> r \<and> r \<le> int (width img)
                               \<and> 0 \<le> u \<and> u \<le> d \<and> d \<le> int (height img)
                               \<and> int (width out) = r - l \<and> int (height out) = d - u))"
    using autocrop_on_bbox[OF assms b] by (rule impI)
  from b mr un 1 2
  show "\<exists>b. getbbox img = Some b \<and> minimal_rect img b \<and> (\<forall>b'. minimal_rect img b' \<longrightarrow> b' = b)
              \<and> (0 \<le> margin \<longrightarrow> not_inverted (expand_box b margin))
              \<and> (not_inverted (expand_box b margin) \<longrightarrow>
                   autocrop_image img margin = crop img (clamp_box img (expand_box b margin))
                   \<and> (\<exists>out. autocrop_image img margin = Inr out \<and> mode out = ModeRGBA
                         \<and> (case clamp_box img (expand_box b margin) of (l, u, r, d) \<Rightarrow>
                               0 \<le> l \<and> l \<le> r \<and> r \<le> int (width img)
                               \<and> 0 \<le> u \<and> u \<le> d \<and> d \<le> int (height img)
                               \<and> int (width out) = r - l \<and> int (height out) = d - u)))"
    by (intro exI[of _ b] conjI)
next
  assume n: "\<not> (\<exists>x y. nonzero_alpha img x y)"
  then have g: "getbbox img = None" by (simp add: getbbox_None)
  have e: "ensure_rgba img = img" using assms by (simp add: ensure_rgba_def)
  have 1: "autocrop_image img margin = crop img (0, 0, 100, 100)"
    by (simp add: autocrop_image_def e g)
  have 2: "\<exists>out. autocrop_image img margin = Inr out \<and> mode out = ModeRGBA
                  \<and> width out = 100 \<and> height out = 100"
    unfolding 1 using assms by simp
  from 1 2 show "autocrop_image img margin = crop img (0, 0, 100, 100)
            \<and> (\<exists>out. autocrop_image img margin = Inr out \<and> mode out = ModeRGBA
                  \<and> width out = 100 \<and> height out = 100)" by (rule conjI)
qed


theorem autocrop_image_crop_witness:
  "autocrop_image \<lparr>mode = ModeRGBA, width = 2, height = 2,
       data = [(0, 0, 0, 0), (9, 9, 9, 255), (0, 0, 0, 0), (0, 0, 0, 0)]\<rparr> 1
     = crop \<lparr>mode = ModeRGBA, width = 2, height = 2,
       data = [(0, 0, 0, 0), (9, 9, 9, 255), (0, 0, 0, 0), (0, 0, 0, 0)]\<rparr> (0, 0, 2, 2)
   \<and> minimal_rect \<lparr>mode = ModeRGBA, width = 2, height = 2,
       data = [(0, 0, 0, 0), (9, 9, 9, 255), (0, 0, 0, 0), (0, 0, 0, 0)]\<rparr> (1, 0, 2, 1)"
proof -
  let ?I = "\<lparr>mode = ModeRGBA, width = 2, height = 2,
       data = [(0, 0, 0, 0), (9, 9, 9, 255), (0, 0, 0, 0), (0, 0, 0, 0)]\<rparr>"
  have m: "mode ?I = ModeRGBA" by simp
  have "nonzero_alpha ?I 1 0" by (simp add: nonzero_alpha_def pixel_at_def)
  then have ex: "\<exists>x y. nonzero_alpha ?I x y" by blast
  have g: "getbbox ?I = Some (1, 0, 2, 1)" by code_simp
  from autocrop_image_crop [OF m, of 1] ex g
  have "minimal_rect ?I (1, 0, 2, 1)"
    and "autocrop_image ?I 1 = crop ?I (clamp_box ?I (expand_box (1, 0, 2, 1) 1))"
    by auto
  then show ?thesis by (simp add: clamp_def)
qed

text \<open>
  C2 as stated fails for a margin below zero: on a one-pixel opaque image with margin -2
  the script's rectangle is (2, 2, -1, -1), outside the image and inverted, and the crop
  raises \<^verbatim>\<open>ValueError\<close> instead of returning an image.
\<close>

theorem autocrop_negative_margin_counterexample:
  "getbbox \<lparr>mode = ModeRGBA, width = 1, height = 1, data = [(0, 0, 0, 255)]\<rparr> = Some (0, 0, 1, 1)
   \<and> autocrop_box \<lparr>mode = ModeRGBA, width = 1, height = 1, data = [(0, 0, 0, 255)]\<rparr>
        (0, 0, 1, 1) (- 2) = (2, 2, - 1, - 1)
   \<and> autocrop_image \<lparr>mode = ModeRGBA, width = 1, height = 1, data = [(0, 0, 0, 255)]\<rparr> (- 2)
        = Inl ValueError"
  by code_simp

subsection \<open>Title Eraser\<close>



lemma ensure_rgba_shape:
  "mode (ensure_rgba img) = ModeRGBA" "width (ensure_rgba img) = width img"
  "height (ensure_rgba img) = height img" "length (data (ensure_rgba img)) = length (data img)"
  by (simp_all add: ensure_rgba_def convert_rgba_def)

lemma draw_rectangle_Inr:
  assumes "draw_rectangle img box fill = Inr out"
  shows "mode out = mode img" "width out = width img" "height out = height img"
    "length (data out) = length (data img)"
    "\<forall>i < length (data img). data out ! i = (if in_rect (width img) box i then fill else data img ! i)"
  using assms by (cases box; auto split: if_splits)+

lemma draw_rectangle_returns:
  "draw_rectangle img (x0, y0, x1, y1) fill = Inl ValueError \<longleftrightarrow> x1 < x0 \<or> y1 < y0"
  by auto








subsection \<open>Resizer\<close>












subsection \<open>Output names of the page loop\<close>

lemma registry_of_Nil: "registry_of [] = Map.empty"
  by (simp add: registry_of_def fun_eq_iff)

lemma occurrence_at_end:
  "occurrence (pre @ info # post) (length pre) S
     = length (filter (titled S) pre) + (if titled S info then 1 else 0)"
  by (simp add: occurrence_def)

lemma output_name_expected:
  "output_name (registry_of pre) (Suc (length pre)) title
     = (expected_name (pre @ (title, bbox) # post) (length pre), registry_of (pre @ [(title, bbox)]))"
proof (cases title)
  case None
  have "registry_of (pre @ [(None, bbox)]) = registry_of pre"
    by (simp add: registry_of_def fun_eq_iff titled_def)
  then show ?thesis using None
    by (simp add: output_name_def expected_name_def positional_name_def)
next
  case (Some t)
  show ?thesis
  proof (cases "t = []")
    case True
    have "registry_of (pre @ [(Some [], bbox)]) = registry_of pre"
      by (simp add: registry_of_def fun_eq_iff titled_def)
    then show ?thesis using Some True
      by (simp add: output_name_def expected_name_def positional_name_def)
  next
    case False
    let ?S = "sanitize_filename t"
    let ?c = "length (filter (titled ?S) pre)"
    have t: "titled S (Some t, bbox) = (S = ?S)" for S
      using False by (auto simp: titled_def)
    have occ: "occurrence (pre @ (Some t, bbox) # post) (length pre) ?S = ?c + 1"
      by (simp add: occurrence_at_end t)
    have reg: "(registry_of pre)(?S \<mapsto> ?c + 1) = registry_of (pre @ [(Some t, bbox)])"
      by (auto simp: registry_of_def fun_eq_iff t)
    show ?thesis
    proof (cases "filter (titled ?S) pre = []")
      case True
      then have "registry_of pre ?S = None" by (simp add: registry_of_def)
      then show ?thesis using Some False occ reg True
        by (simp add: output_name_def expected_name_def Let_def)
    next
      case F: False
      then have "registry_of pre ?S = Some ?c" and "?c \<noteq> 0" by (simp_all add: registry_of_def)
      then show ?thesis using Some False occ reg
        by (simp add: output_name_def expected_name_def Let_def)
    qed
  qed
qed

lemma process_pages_nth:
  assumes "process_pages ev rt ac cm sc (Suc (length pre)) (registry_of pre) zs = (ws, r)"
  shows "length ws \<le> length zs
         \<and> (\<forall>j < length ws. \<exists>img0.
               fst (zs ! j) = Inr img0
             \<and> fst (ws ! j) = expected_name (pre @ map snd zs) (length pre + j)
             \<and> process_image (lanczos_filter ev) rt ac cm sc (snd (snd (zs ! j))) img0 = Inr (snd (ws ! j)))"
  using assms
proof (induction zs arbitrary: pre ws r)
  case Nil
  then show ?case by simp
next
  case (Cons z zs)
  obtain page title bbox where z: "z = (page, (title, bbox))" by (cases z) auto
  note on = output_name_expected[of pre title bbox "map snd zs"]
  show ?case
  proof (cases "ws = []")
    case True
    then show ?thesis by simp
  next
    case False
    with Cons.prems obtain img0 out ws' where
      p: "page = Inr img0"
      and pi: "process_image (lanczos_filter ev) rt ac cm sc bbox img0 = Inr out"
      and rec: "process_pages ev rt ac cm sc (Suc (length (pre @ [(title, bbox)])))
                  (registry_of (pre @ [(title, bbox)])) zs = (ws', r)"
      and ws: "ws = (expected_name (pre @ (title, bbox) # map snd zs) (length pre), out) # ws'"
      unfolding z by (auto simp: on split: sum.splits option.splits prod.splits)
    note IH = Cons.IH[OF rec]
    have len: "length ws \<le> length (z # zs)" using IH ws by simp
    have "\<exists>img0. fst ((z # zs) ! j) = Inr img0
             \<and> fst (ws ! j) = expected_name (pre @ map snd (z # zs)) (length pre + j)
             \<and> process_image (lanczos_filter ev) rt ac cm sc (snd (snd ((z # zs) ! j))) img0
                 = Inr (snd (ws ! j))" if j: "j < length ws" for j
    proof (cases j)
      case 0
      then show ?thesis using p pi ws z by simp
    next
      case (Suc k)
      then have "k < length ws'" using j ws by simp
      with IH obtain i0 where "fst (zs ! k) = Inr i0"
        "fst (ws' ! k) = expected_name ((pre @ [(title, bbox)]) @ map snd zs) (length (pre @ [(title, bbox)]) + k)"
        "process_image (lanczos_filter ev) rt ac cm sc (snd (snd (zs ! k))) i0 = Inr (snd (ws' ! k))"
        by blast
      then show ?thesis using Suc ws z by simp
    qed
    with len show ?thesis by blast
  qed
qed

subsection \<open>What a run writes\<close>

lemma collect_slides_info_nth:
  "collect_slides_info prs sls = Inr infos \<Longrightarrow>
     length infos = length sls
     \<and> (\<forall>j < length sls. extract_slide_title_and_bbox prs (sls ! j) = Inr (infos ! j))"
proof (induction sls arbitrary: infos)
  case Nil
  then show ?case by simp
next
  case (Cons sl sls)
  from Cons.prems obtain info rest where
    i: "extract_slide_title_and_bbox prs sl = Inr info"
    and r: "collect_slides_info prs sls = Inr rest" and e: "infos = info # rest"
    by (auto split: sum.splits)
  from Cons.IH[OF r] i e show ?case by (auto simp: nth_Cons split: nat.splits)
qed

lemma occurrence_take: "j < n \<Longrightarrow> occurrence (take n infos) j S = occurrence infos j S"
  by (simp add: occurrence_def min_def)

lemma expected_name_take:
  "j < n \<Longrightarrow> expected_name (take n infos) j = expected_name infos j"
  by (simp add: expected_name_def occurrence_take split: option.splits)

lemma written_gave_up: "written (gave_up d) = []" and written_raising: "written (raising e) = []"
  by (simp_all add: gave_up_def raising_def)

lemma written_rasterize:
  assumes "written (rasterize_and_process ev infos rt ac cm sc) \<noteq> []"
  shows "\<exists>r. process_pages ev rt ac cm sc 1 Map.empty (zip (png_files ev) infos)
               = (written (rasterize_and_process ev infos rt ac cm sc), r)"
  using assms
  by (auto simp: rasterize_and_process_def written_gave_up written_raising
           split: if_splits proc_result.splits prod.splits)

lemma written_use_libreoffice:
  assumes "written (use_libreoffice_method ev infos rt ac cm sc) \<noteq> []"
  shows "\<exists>r. process_pages ev rt ac cm sc 1 Map.empty (zip (png_files ev) infos)
               = (written (use_libreoffice_method ev infos rt ac cm sc), r)"
  using assms written_rasterize[of ev infos rt ac cm sc]
  by (auto simp: use_libreoffice_method_def written_gave_up written_raising
           split: proc_result.splits)

lemma written_try_body:
  assumes "written (try_body ev rt ac cm sc) \<noteq> []"
  shows "\<exists>prs infos r. load_presentation ev = Inr prs
           \<and> collect_slides_info prs (slides prs) = Inr infos
           \<and> process_pages ev rt ac cm sc 1 Map.empty (zip (png_files ev) infos)
               = (written (try_body ev rt ac cm sc), r)"
  using assms
  by (auto simp: try_body_def written_gave_up written_raising
           split: sum.splits if_splits dest!: written_use_libreoffice)

lemma written_pptx:
  "written (pptx_to_png_transparent ev rt ac cm sc) = [] \<or>
   written (pptx_to_png_transparent ev rt ac cm sc) = written (try_body ev rt ac cm sc)"
  by (auto simp: pptx_to_png_transparent_def written_gave_up written_raising Let_def
           split: option.splits)

lemma written_page:
  assumes l: "load_presentation ev = Inr prs"
    and j: "j < length (written (pptx_to_png_transparent ev rt ac cm sc))"
  shows "\<exists>infos img0. collect_slides_info prs (slides prs) = Inr infos
           \<and> j < length infos \<and> j < length (png_files ev) \<and> png_files ev ! j = Inr img0
           \<and> fst (written (pptx_to_png_transparent ev rt ac cm sc) ! j) = expected_name infos j
           \<and> process_image (lanczos_filter ev) rt ac cm sc (snd (infos ! j)) img0
               = Inr (snd (written (pptx_to_png_transparent ev rt ac cm sc) ! j))"
proof -
  let ?W = "written (pptx_to_png_transparent ev rt ac cm sc)"
  from j have ne: "?W \<noteq> []" by auto
  with written_pptx[of ev rt ac cm sc] have w: "?W = written (try_body ev rt ac cm sc)" by auto
  with ne written_try_body[of ev rt ac cm sc] l obtain infos r where
    c: "collect_slides_info prs (slides prs) = Inr infos"
    and p: "process_pages ev rt ac cm sc 1 Map.empty (zip (png_files ev) infos) = (?W, r)"
    by auto
  from p have "process_pages ev rt ac cm sc (Suc (length ([]::slide_info list))) (registry_of [])
                 (zip (png_files ev) infos) = (?W, r)"
    by (simp add: registry_of_Nil)
  note n = process_pages_nth[OF this]
  from n j have jz: "j < length (zip (png_files ev) infos)" by simp
  then have jl: "j < length infos" "j < length (png_files ev)" by simp_all
  from n j obtain img0 where
    "fst (zip (png_files ev) infos ! j) = Inr img0"
    "fst (?W ! j) = expected_name ([] @ map snd (zip (png_files ev) infos)) (length ([]::slide_info list) + j)"
    "process_image (lanczos_filter ev) rt ac cm sc (snd (snd (zip (png_files ev) infos ! j))) img0
       = Inr (snd (?W ! j))"
    by blast
  then have "png_files ev ! j = Inr img0" "fst (?W ! j) = expected_name infos j"
    "process_image (lanczos_filter ev) rt ac cm sc (snd (infos ! j)) img0 = Inr (snd (?W ! j))"
    using jl by (simp_all add: map_snd_zip_take expected_name_take)
  with c jl show ?thesis by blast
qed

lemma process_pages_complete:
  assumes "\<forall>z \<in> set zs. \<exists>img0 out. fst z = Inr img0
              \<and> process_image (lanczos_filter ev) rt ac cm sc (snd (snd z)) img0 = Inr out"
    and "\<forall>name. save_error ev name = None"
  shows "\<exists>ws. process_pages ev rt ac cm sc idx reg zs = (ws, None) \<and> length ws = length zs"
  using assms(1)
proof (induction zs arbitrary: idx reg)
  case Nil
  then show ?case by simp
next
  case (Cons z zs)
  obtain page title bbox where z: "z = (page, (title, bbox))" by (cases z) auto
  obtain name reg' where o: "output_name reg idx title = (name, reg')"
    by (cases "output_name reg idx title") auto
  from Cons.prems z obtain img0 out where
    p: "page = Inr img0" "process_image (lanczos_filter ev) rt ac cm sc bbox img0 = Inr out"
    by auto
  from Cons.IH[of "idx + 1" reg'] Cons.prems obtain ws where
    "process_pages ev rt ac cm sc (idx + 1) reg' zs = (ws, None)" "length ws = length zs"
    by auto
  then show ?case using z o p assms(2) by simp
qed

subsection \<open>The run of four slides\<close>

lemma four_slides_infos:
  "collect_slides_info four_slides (slides four_slides) =
     Inr [(Some (py ''Intro''), Some (1 / 10, 1 / 10, 1 / 2, 1 / 5)),
          (Some (py ''Intro''), Some (1 / 10, 1 / 10, 1 / 2, 1 / 5)),
          (None, None),
          (Some [], Some (1 / 10, 1 / 10, 1 / 2, 1 / 5))]"
  by code_simp

lemma black_page_erased:
  "process_image (lanczos_filter four_slides_env) True False 20 100
     (Some (1 / 10, 1 / 10, 1 / 2, 1 / 5)) black_page
   = Inr \<lparr>mode = ModeRGBA, width = 2, height = 2, data = replicate 4 (255, 255, 255, 0)\<rparr>"
  by code_simp

lemma black_page_kept:
  "process_image (lanczos_filter four_slides_env) True False 20 100 None black_page
   = Inr \<lparr>mode = ModeRGBA, width = 2, height = 2, data = replicate 4 (0, 0, 0, 255)\<rparr>"
  by code_simp

lemma four_slides_load: "load_presentation four_slides_env = Inr four_slides"
  by (simp add: four_slides_env_def)

lemma four_slides_run:
  "\<exists>ws. pptx_to_png_transparent four_slides_env True False 20 100
          = \<lparr>written = ws, printed = [], raised = None\<rparr> \<and> length ws = 4"
proof -
  let ?infos = "[(Some (py ''Intro''), Some (1 / 10, 1 / 10, 1 / 2, 1 / 5)),
          (Some (py ''Intro''), Some (1 / 10, 1 / 10, 1 / 2, 1 / 5)),
          (None, None),
          (Some [], Some (1 / 10, 1 / 10, 1 / 2, 1 / 5))] :: slide_info list"
  have s: "\<forall>name. save_error four_slides_env name = None" by (simp add: four_slides_env_def)
  have z: "zip (png_files four_slides_env) ?infos
       = [(Inr black_page, ?infos ! 0), (Inr black_page, ?infos ! 1),
          (Inr black_page, ?infos ! 2), (Inr black_page, ?infos ! 3)]"
    by (simp add: four_slides_env_def numeral_eq_Suc)
  have "\<forall>z \<in> set (zip (png_files four_slides_env) ?infos). \<exists>img0 out. fst z = Inr img0
          \<and> process_image (lanczos_filter four_slides_env) True False 20 100 (snd (snd z)) img0 = Inr out"
    unfolding z using black_page_erased black_page_kept by simp
  from process_pages_complete[OF this s, of 1 Map.empty] obtain ws where
    ws: "process_pages four_slides_env True False 20 100 1 Map.empty
           (zip (png_files four_slides_env) ?infos) = (ws, None)" "length ws = length (zip (png_files four_slides_env) ?infos)"
    by blast
  have e: "png_files four_slides_env \<noteq> []" by (simp add: four_slides_env_def)
  have "try_body four_slides_env True False 20 100 = \<lparr>written = ws, printed = [], raised = None\<rparr>"
    using ws(1) e
    by (simp add: try_body_def four_slides_load four_slides_infos)
       (simp add: four_slides_env_def use_libreoffice_method_def rasterize_and_process_def)
  then have "pptx_to_png_transparent four_slides_env True False 20 100
       = \<lparr>written = ws, printed = [], raised = None\<rparr>"
    by (simp add: pptx_to_png_transparent_def Let_def) (simp add: four_slides_env_def)
  moreover have "length ws = 4" using ws(2) unfolding z by simp
  ultimately show ?thesis by blast
qed

lemma four_slides_length:
  "length (written (pptx_to_png_transparent four_slides_env True False 20 100)) = 4"
  using four_slides_run by auto

lemma sanitize_Intro: "sanitize_filename (py ''Intro'') = py ''Intro''"
  by (simp add: sanitize_filename_def py_def py_split_def py_strip_def py_replace_char_def
        invalid_chars_def is_space_def)


subsection \<open>Names of the written files\<close>

lemma occurrence_here:
  assumes "j < length infos" "titled S (infos ! j)"
  shows "occurrence infos j S = length (filter (titled S) (take j infos)) + 1"
    and "(occurrence infos j S = 1) = (\<forall>i<j. \<not> titled S (infos ! i))"
proof -
  show o: "occurrence infos j S = length (filter (titled S) (take j infos)) + 1"
    using assms by (simp add: occurrence_def take_Suc_conv_app_nth)
  have "set (take j infos) = (!) infos ` {0..<j}"
    using assms(1) by (simp add: nth_image)
  then have "(filter (titled S) (take j infos) = []) = (\<forall>i<j. \<not> titled S (infos ! i))"
    by (auto simp: filter_empty_conv)
  then show "(occurrence infos j S = 1) = (\<forall>i<j. \<not> titled S (infos ! i))"
    using o by simp
qed

text \<open>
  C5. In a run, the file written for the slide at position \<open>j\<close>, whose title \<open>t\<close> is
  not empty, is named after the sanitized title \<open>S\<close>: \<^verbatim>\<open>S.png\<close> when the slide is the
  first whose title sanitizes to \<open>S\<close>, and \<^verbatim>\<open>S_k.png\<close> when it is the k-th such slide,
  k = 2, 3, ...
\<close>

theorem duplicate_titles_numbered:
  assumes "load_presentation ev = Inr prs"
    and "collect_slides_info prs (slides prs) = Inr infos"
    and "j < length (written (pptx_to_png_transparent ev rt ac cm sc))"
    and "fst (infos ! j) = Some t" and "t \<noteq> []"
  shows "fst (written (pptx_to_png_transparent ev rt ac cm sc) ! j)
           = (if occurrence infos j (sanitize_filename t) = 1 then sanitize_filename t @ py ''.png''
              else sanitize_filename t @ py ''_'' @ py_str (occurrence infos j (sanitize_filename t))
                     @ py ''.png'')
         \<and> 1 \<le> occurrence infos j (sanitize_filename t)
         \<and> ((occurrence infos j (sanitize_filename t) = 1)
              = (\<forall>i<j. \<not> titled (sanitize_filename t) (infos ! i)))"
proof -
  from written_page[OF assms(1,3)] assms(2) have
    jl: "j < length infos"
    and n: "fst (written (pptx_to_png_transparent ev rt ac cm sc) ! j) = expected_name infos j"
    by auto
  have t: "titled (sanitize_filename t) (infos ! j)" using assms(4,5) by (simp add: titled_def)
  note o = occurrence_here[OF jl t]
  show ?thesis using n o assms(4,5) by (simp add: expected_name_def)
qed

theorem duplicate_titles_numbered_witness:
  "fst (written (pptx_to_png_transparent four_slides_env True False 20 100) ! 0) = py ''Intro.png''
   \<and> fst (written (pptx_to_png_transparent four_slides_env True False 20 100) ! 1) = py ''Intro_2.png''"
proof -
  let ?infos = "[(Some (py ''Intro''), Some (1 / 10, 1 / 10, 1 / 2, 1 / 5)),
          (Some (py ''Intro''), Some (1 / 10, 1 / 10, 1 / 2, 1 / 5)),
          (None, None),
          (Some [], Some (1 / 10, 1 / 10, 1 / 2, 1 / 5))] :: slide_info list"
  have ne: "py ''Intro'' \<noteq> []" by (simp add: py_def)
  have o0: "occurrence ?infos 0 (py ''Intro'') = 1" and o1: "occurrence ?infos 1 (py ''Intro'') = 2"
    by (simp_all add: occurrence_def titled_def sanitize_Intro ne)
  have c0: "py ''Intro'' @ py ''.png'' = py ''Intro.png''" by (simp add: py_def)
  have c1: "py ''Intro'' @ py ''_'' @ py_str 2 @ py ''.png'' = py ''Intro_2.png''"
    by (simp add: py_def py_str.simps)
  have l0: "0 < length (written (pptx_to_png_transparent four_slides_env True False 20 100))"
    and l1: "1 < length (written (pptx_to_png_transparent four_slides_env True False 20 100))"
    by (simp_all add: four_slides_length)
  have "fst (written (pptx_to_png_transparent four_slides_env True False 20 100) ! 0)
          = py ''Intro'' @ py ''.png''"
    using duplicate_titles_numbered [OF four_slides_load four_slides_infos l0 _ ne,
        unfolded sanitize_Intro o0]
    by simp
  moreover
  have "fst (written (pptx_to_png_transparent four_slides_env True False 20 100) ! 1)
          = py ''Intro'' @ py ''_'' @ py_str 2 @ py ''.png''"
    using duplicate_titles_numbered [OF four_slides_load four_slides_infos l1 _ ne,
        unfolded sanitize_Intro o1]
    by simp
  ultimately show ?thesis unfolding c0 c1 by simp
qed

subsection \<open>Slides without a title\<close>

lemma first_text_shape_none:
  "\<forall>s\<in>set ss. \<forall>t. shp_text s = Some t \<longrightarrow> py_strip t = [] \<Longrightarrow>
     first_text_shape prs ss = Inr (None, None)"
  by (induction ss) (auto split: option.splits)

lemma positional_name_eq: "positional_name n = py ''Slide_'' @ py_str n @ py ''.png''"
  by (simp add: positional_name_def)

text \<open>
  C9. For a slide with no title shape and no shape whose text has a character other than
  white space (so, in particular, no shape with non-empty text), the Title Locator returns
  (none, none); and the file a run writes for such a slide at position \<open>j\<close> (from 0) is
  named \<^verbatim>\<open>Slide_<j + 1>.png\<close>.
\<close>

theorem untitled_slide_positional_name:
  "(title_shape sl = None \<and> (\<forall>s\<in>set (shapes sl). \<forall>t. shp_text s = Some t \<longrightarrow> py_strip t = [])
      \<longrightarrow> extract_slide_title_and_bbox prs sl = Inr (None, None))
   \<and> (load_presentation ev = Inr prs
       \<and> j < length (written (pptx_to_png_transparent ev rt ac cm sc))
       \<and> title_shape (slides prs ! j) = None
       \<and> (\<forall>s\<in>set (shapes (slides prs ! j)). \<forall>t. shp_text s = Some t \<longrightarrow> py_strip t = [])
      \<longrightarrow> fst (written (pptx_to_png_transparent ev rt ac cm sc) ! j)
            = py ''Slide_'' @ py_str (j + 1) @ py ''.png'')"
proof (intro conjI impI)
  assume "title_shape sl = None \<and> (\<forall>s\<in>set (shapes sl). \<forall>t. shp_text s = Some t \<longrightarrow> py_strip t = [])"
  then show "extract_slide_title_and_bbox prs sl = Inr (None, None)"
    by (simp add: extract_slide_title_and_bbox_def first_text_shape_none)
next
  assume a: "load_presentation ev = Inr prs
       \<and> j < length (written (pptx_to_png_transparent ev rt ac cm sc))
       \<and> title_shape (slides prs ! j) = None
       \<and> (\<forall>s\<in>set (shapes (slides prs ! j)). \<forall>t. shp_text s = Some t \<longrightarrow> py_strip t = [])"
  then have e: "extract_slide_title_and_bbox prs (slides prs ! j) = Inr (None, None)"
    by (simp add: extract_slide_title_and_bbox_def first_text_shape_none)
  from a written_page[of ev prs j rt ac cm sc] obtain infos where
    c: "collect_slides_info prs (slides prs) = Inr infos" and jl: "j < length infos"
    and n: "fst (written (pptx_to_png_transparent ev rt ac cm sc) ! j) = expected_name infos j"
    by auto
  from collect_slides_info_nth[OF c] jl e have "infos ! j = (None, None)" by auto
  then show "fst (written (pptx_to_png_transparent ev rt ac cm sc) ! j)
            = py ''Slide_'' @ py_str (j + 1) @ py ''.png''"
    using n by (simp add: expected_name_def positional_name_eq)
qed

theorem untitled_slide_positional_name_witness:
  "extract_slide_title_and_bbox four_slides picture_slide = Inr (None, None)
   \<and> fst (written (pptx_to_png_transparent four_slides_env True False 20 100) ! 2) = py ''Slide_3.png''"
proof -
  have s: "slides four_slides ! 2 = picture_slide" by (simp add: four_slides_def)
  have p: "title_shape picture_slide = None
     \<and> (\<forall>s\<in>set (shapes picture_slide). \<forall>t. shp_text s = Some t \<longrightarrow> py_strip t = [])"
    by (simp add: picture_slide_def)
  have c: "py ''Slide_'' @ py_str (2 + 1) @ py ''.png'' = py ''Slide_3.png''"
    by (simp add: py_str.simps py_def)
  have l: "2 < length (written (pptx_to_png_transparent four_slides_env True False 20 100))"
    by (simp add: four_slides_length)
  from untitled_slide_positional_name [of picture_slide four_slides four_slides_env 2 True False 20 100]
  show ?thesis using p s four_slides_load l unfolding c by simp
qed

subsection \<open>Empty title placeholders\<close>





subsection \<open>Modes of the written images\<close>

lemma crop_mode: "crop img b = Inr out \<Longrightarrow> mode out = mode img"
  by (cases b) (auto split: if_splits)

lemma resize_mode: "resize f img sz = Inr out \<Longrightarrow> mode out = mode img"
  by (cases sz) (auto split: if_splits)

lemma erase_stage_mode:
  "erase_stage rt bbox img = Inr out \<Longrightarrow> mode img = ModeRGBA \<Longrightarrow> mode out = ModeRGBA"
  by (auto simp: erase_stage_def remove_title_from_image_def ensure_rgba_shape
           split: if_splits option.splits dest!: draw_rectangle_Inr(1))

lemma crop_stage_mode:
  "crop_stage ac cm img = Inr out \<Longrightarrow> mode img = ModeRGBA \<Longrightarrow> mode out = ModeRGBA"
  by (auto simp: crop_stage_def autocrop_image_def Let_def ensure_rgba_shape
           split: if_splits option.splits dest!: crop_mode)

lemma resize_stage_mode:
  "resize_stage f sc img = Inr out \<Longrightarrow> mode img = ModeRGBA \<Longrightarrow> mode out = ModeRGBA"
  by (auto simp: resize_stage_def resize_image_def split: if_splits dest!: resize_mode)

lemma process_image_mode:
  assumes "process_image f rt ac cm sc bbox img0 = Inr out"
  shows "mode out = ModeRGBA"
proof -
  let ?B = "background_filter (ensure_rgba img0)"
  have m0: "mode ?B = ModeRGBA" by (simp add: background_filter_def ensure_rgba_shape)
  from assms obtain img1 where 1: "erase_stage rt bbox ?B = Inr img1"
    by (cases "erase_stage rt bbox ?B") (auto simp: process_image_def)
  with assms obtain img2 where 2: "crop_stage ac cm img1 = Inr img2"
    by (cases "crop_stage ac cm img1") (auto simp: process_image_def)
  with assms 1 have 3: "resize_stage f sc img2 = Inr out" by (simp add: process_image_def)
  from erase_stage_mode[OF 1 m0] crop_stage_mode[OF 2] resize_stage_mode[OF 3]
  show ?thesis by blast
qed

lemma written_pptx_rgba:
  assumes "j < length (written (pptx_to_png_transparent ev rt ac cm sc))"
  shows "mode (snd (written (pptx_to_png_transparent ev rt ac cm sc) ! j)) = ModeRGBA"
proof -
  let ?W = "written (pptx_to_png_transparent ev rt ac cm sc)"
  from assms have ne: "?W \<noteq> []" by auto
  with written_pptx[of ev rt ac cm sc] have "written (try_body ev rt ac cm sc) \<noteq> []" by auto
  from written_try_body[OF this] obtain prs where "load_presentation ev = Inr prs" by blast
  from written_page[OF this assms] obtain bbox img0 where
    "process_image (lanczos_filter ev) rt ac cm sc bbox img0 = Inr (snd (?W ! j))"
    by blast
  then show ?thesis by (rule process_image_mode)
qed

lemma written_main:
  "written (fst (main_program argv ev)) = [] \<or>
   (\<exists>c. parse_options (drop 3 argv) default_cli = Inr c
      \<and> fst (main_program argv ev)
          = pptx_to_png_transparent ev (\<not> cli_keep_title c) (cli_do_autocrop c) (cli_margin c) (cli_scale c))"
  by (auto simp: main_program_def written_gave_up written_raising Let_def split: sum.splits)

text \<open>
  C8. Every image the program writes is in mode RGBA: the driver promotes the page to
  RGBA before the background filter, and the title eraser, the autocropper and the resizer
  all return RGBA images.
\<close>

theorem written_images_are_rgba:
  "\<forall>(name, img) \<in> set (written (fst (main_program argv ev))). mode img = ModeRGBA"
proof -
  have "mode (snd (written (fst (main_program argv ev)) ! j)) = ModeRGBA"
    if "j < length (written (fst (main_program argv ev)))" for j
    using that written_main[of argv ev] written_pptx_rgba by (cases "written (fst (main_program argv ev)) = []") auto
  then have "mode (snd p) = ModeRGBA" if "p \<in> set (written (fst (main_program argv ev)))" for p
    using that by (metis in_set_conv_nth)
  then show ?thesis by auto
qed


lemma parse_no_crop:
  "parse_options (drop 3 [py ''extract_slides.py'', py ''deck.pptx'', py ''images'', py ''--no-crop''])
     default_cli = Inr (default_cli\<lparr>cli_do_autocrop := False\<rparr>)"
  by (simp add: py_def)

lemma main_no_crop:
  "main_program [py ''extract_slides.py'', py ''deck.pptx'', py ''images'', py ''--no-crop'']
     four_slides_env
   = (pptx_to_png_transparent four_slides_env True False 20 100, 0)"
proof -
  have "raised (pptx_to_png_transparent four_slides_env True False 20 100) = None"
    using four_slides_run by auto
  then show ?thesis
    unfolding main_program_def parse_no_crop by (simp add: default_cli_def Let_def)
qed

theorem written_images_are_rgba_witness:
  "mode (snd (written (fst (main_program
      [py ''extract_slides.py'', py ''deck.pptx'', py ''images'', py ''--no-crop'']
      four_slides_env)) ! 0)) = ModeRGBA"
proof -
  let ?argv = "[py ''extract_slides.py'', py ''deck.pptx'', py ''images'', py ''--no-crop'']"
  have "0 < length (written (fst (main_program ?argv four_slides_env)))"
    by (simp add: main_no_crop four_slides_length)
  then have "written (fst (main_program ?argv four_slides_env)) ! 0
               \<in> set (written (fst (main_program ?argv four_slides_env)))"
    by (rule nth_mem)
  with written_images_are_rgba [of ?argv four_slides_env] show ?thesis by auto
qed

subsection \<open>Failures\<close>










end
